theory Spec2Isabelle
  imports Main
begin

section \<open>Values and errors\<close>

text \<open>
  The program is \<^verbatim>\<open>src/dz/config_parser_v24.py\<close>. Texts are lists of characters; a
  character stands for a code point below 256. The limits that the interpreter sets
  to every program (the depth of recursion, the configurable cap on the length of a
  decimal numeral in \<^verbatim>\<open>int\<close> and \<^verbatim>\<open>str\<close>) are not part of the model.

  The Python values the transformer produces: \<^verbatim>\<open>int\<close> (unbounded), \<^verbatim>\<open>str\<close>,
  \<^verbatim>\<open>list\<close>, the 2-tuple \<^verbatim>\<open>(name, value)\<close> that \<^verbatim>\<open>assign_const\<close> returns, and the
  \<^verbatim>\<open>dict\<close> that \<^verbatim>\<open>start\<close> returns. A dict keeps its keys in insertion order, so it is
  an association list with distinct keys.
\<close>

datatype pyobj =
    PyInt int
  | PyStr string
  | PyList "pyobj list"
  | PyTuple string pyobj
  | PyDict "(string \<times> pyobj) list"

text \<open>
  Every way the run can stop early. \<open>UnexpectedInput\<close> is lark's base class of the lexer's
  and the parser's errors (\<^verbatim>\<open>except UnexpectedInput\<close> in \<^verbatim>\<open>main\<close>); \<open>UndefinedConstant n\<close>
  is the \<^verbatim>\<open>raise VisitError(f"Undefined constant '{name}' ...")\<close> of \<^verbatim>\<open>resolve_const\<close>;
  \<open>ValueError\<close> is what \<^verbatim>\<open>int(token)\<close> raises; \<open>ExpatError\<close> is what
  \<^verbatim>\<open>xml.dom.minidom.parseString\<close> raises on a text that is not well-formed XML.
\<close>

datatype error = UnexpectedInput | UndefinedConstant string | ValueError | ExpatError

section \<open>Python built-ins used by the program\<close>

subsection \<open>Decimal digits: \<^verbatim>\<open>int(text)\<close> and \<^verbatim>\<open>str(int)\<close>\<close>

definition is_digit :: "char \<Rightarrow> bool" where
  "is_digit c = (48 \<le> (of_char c :: nat) \<and> (of_char c :: nat) \<le> 57)"

definition digit_val :: "char \<Rightarrow> nat" where
  "digit_val c = of_char c - 48"

definition digit_char :: "nat \<Rightarrow> char" where
  "digit_char d = ''0123456789'' ! d"

definition nat_of_digits :: "string \<Rightarrow> nat" where
  "nat_of_digits ds = foldl (\<lambda>a c. 10 * a + digit_val c) 0 ds"

text \<open>
  \<^verbatim>\<open>int(token)\<close> on a text of the shape \<^verbatim>\<open>[+-]?[0-9]+\<close>, the only texts the terminal
  NUMBER matches and so the only ones that reach \<^verbatim>\<open>number\<close>. A text of another shape
  is answered with \<open>None\<close>, which stands for Python's ValueError. The result is a
  Python integer, which has no upper or lower bound.
\<close>

definition py_int :: "string \<Rightarrow> int option" where
  "py_int s =
     (let (neg, ds) = (case s of
                         c # r \<Rightarrow> if c = CHR ''-'' then (True, r)
                                  else if c = CHR ''+'' then (False, r) else (False, s)
                       | [] \<Rightarrow> (False, s))
      in if ds \<noteq> [] \<and> list_all is_digit ds
         then Some (if neg then - int (nat_of_digits ds) else int (nat_of_digits ds))
         else None)"

function str_nat :: "nat \<Rightarrow> string" where
  "str_nat n = (if n < 10 then [digit_char n] else str_nat (n div 10) @ [digit_char (n mod 10)])"
  by pat_completeness auto
termination
  by (relation "measure id") auto

declare str_nat.simps [simp del]

definition str_int :: "int \<Rightarrow> string" where
  "str_int i = (if i < 0 then CHR ''-'' # str_nat (nat (- i)) else str_nat (nat i))"

subsection \<open>\<^verbatim>\<open>repr\<close> and \<^verbatim>\<open>str\<close>\<close>

definition hex_char :: "nat \<Rightarrow> char" where
  "hex_char d = ''0123456789abcdef'' ! d"

definition py_printable :: "char \<Rightarrow> bool" where
  "py_printable c =
     (let n = (of_char c :: nat)
      in (32 \<le> n \<and> n < 127) \<or> (161 \<le> n \<and> n \<noteq> 173))"

definition repr_char :: "char \<Rightarrow> char \<Rightarrow> string" where
  "repr_char q c =
     (if c = q \<or> c = CHR 0x5C then [CHR 0x5C, c]
      else if c = CHR 0x09 then [CHR 0x5C, CHR ''t'']
      else if c = CHR 0x0A then [CHR 0x5C, CHR ''n'']
      else if c = CHR 0x0D then [CHR 0x5C, CHR ''r'']
      else if py_printable c then [c]
      else [CHR 0x5C, CHR ''x'', hex_char (of_char c div 16), hex_char (of_char c mod 16)])"

definition repr_str :: "string \<Rightarrow> string" where
  "repr_str s =
     (let q = (if CHR 0x27 \<in> set s \<and> CHR 0x22 \<notin> set s then CHR 0x22 else CHR 0x27)
      in q # concat (map (repr_char q) s) @ [q])"

fun join :: "string \<Rightarrow> string list \<Rightarrow> string" where
  "join sep [] = []"
| "join sep [x] = x"
| "join sep (x # y # r) = x @ sep @ join sep (y # r)"

fun py_repr :: "pyobj \<Rightarrow> string"
  and py_repr_list :: "pyobj list \<Rightarrow> string list"
  and py_repr_items :: "(string \<times> pyobj) list \<Rightarrow> string list" where
  "py_repr (PyInt i) = str_int i"
| "py_repr (PyStr s) = repr_str s"
| "py_repr (PyList xs) = ''['' @ join '', '' (py_repr_list xs) @ '']''"
| "py_repr (PyTuple n v) = ''('' @ repr_str n @ '', '' @ py_repr v @ '')''"
| "py_repr (PyDict kvs) = ''{'' @ join '', '' (py_repr_items kvs) @ ''}''"
| "py_repr_list [] = []"
| "py_repr_list (x # xs) = py_repr x # py_repr_list xs"
| "py_repr_items [] = []"
| "py_repr_items ((k, v) # kvs) = (repr_str k @ '': '' @ py_repr v) # py_repr_items kvs"

definition py_str :: "pyobj \<Rightarrow> string" where
  "py_str x = (case x of PyStr s \<Rightarrow> s | _ \<Rightarrow> py_repr x)"

subsection \<open>\<^verbatim>\<open>dict[key] = value\<close>\<close>

text \<open>
  Storing under a key that the dict already has replaces the value where the key
  stands; a new key goes to the end.
\<close>

fun dict_setitem :: "(string \<times> pyobj) list \<Rightarrow> string \<Rightarrow> pyobj \<Rightarrow> (string \<times> pyobj) list" where
  "dict_setitem [] k v = [(k, v)]"
| "dict_setitem ((k', v') # d) k v =
     (if k' = k then (k, v) # d else (k', v') # dict_setitem d k v)"

section \<open>The parse tree\<close>

text \<open>
  The trees the grammar builds. A value is one of the rules \<^verbatim>\<open>number\<close>, \<^verbatim>\<open>string\<close>,
  \<^verbatim>\<open>array\<close> and \<^verbatim>\<open>const_expr\<close> (alias \<^verbatim>\<open>resolve_const\<close>); the terminals \<^verbatim>\<open>?\<close>, \<^verbatim>\<open>[\<close>
  and \<^verbatim>\<open>]\<close> it keeps carry no information and are left out. A top-level item is an
  \<^verbatim>\<open>assignment\<close> (alias \<^verbatim>\<open>assign_const\<close>) or a value.
\<close>

datatype value_tree =
    Number_node string
  | String_node string
  | Array_node "value_tree list"
  | Resolve_const_node string

datatype item_tree =
    Assign_const_node string value_tree
  | Value_node value_tree

section \<open>ConfigTransformer\<close>

record transformer =
  constants :: "string \<rightharpoonup> pyobj"
  assignments :: "string \<rightharpoonup> pyobj"

definition init :: transformer where
  "init = \<lparr>constants = Map.empty, assignments = Map.empty\<rparr>"

definition assign_const :: "transformer \<Rightarrow> string \<Rightarrow> pyobj \<Rightarrow> pyobj \<times> transformer" where
  "assign_const self name val =
     (PyTuple name val,
      self\<lparr>constants := (constants self)(name \<mapsto> val),
           assignments := (assignments self)(name \<mapsto> val)\<rparr>)"

definition resolve_const :: "transformer \<Rightarrow> string \<Rightarrow> error + pyobj" where
  "resolve_const self name =
     (case constants self name of
        None \<Rightarrow> Inl (UndefinedConstant name)
      | Some v \<Rightarrow> Inr v)"

definition number :: "string \<Rightarrow> error + pyobj" where
  "number token = (case py_int token of None \<Rightarrow> Inl ValueError | Some i \<Rightarrow> Inr (PyInt i))"

text \<open>\<^verbatim>\<open>token[1:-1]\<close>: the text without its first and its last character.\<close>

definition string :: "string \<Rightarrow> pyobj" where
  "string token = PyStr (butlast (tl token))"

definition array :: "pyobj list \<Rightarrow> pyobj" where
  "array items = PyList items"

text \<open>
  The loop of \<^verbatim>\<open>start\<close>, with \<^verbatim>\<open>result_dict\<close> and \<^verbatim>\<open>unnamed_counter\<close> as arguments.
  The only tuples among the items are the pairs of \<^verbatim>\<open>assign_const\<close>. The second branch
  of the source asks for an item that is still a \<^verbatim>\<open>Tree\<close>; every item has been
  transformed by then, so no item takes it.
\<close>

fun start_loop :: "(string \<times> pyobj) list \<Rightarrow> nat \<Rightarrow> pyobj list \<Rightarrow> (string \<times> pyobj) list" where
  "start_loop result_dict unnamed_counter [] = result_dict"
| "start_loop result_dict unnamed_counter (PyTuple name val # items) =
     start_loop (dict_setitem result_dict name val) unnamed_counter items"
| "start_loop result_dict unnamed_counter (item # items) =
     start_loop (dict_setitem result_dict (''item_'' @ str_nat unnamed_counter) item)
       (Suc unnamed_counter) items"

definition start :: "pyobj list \<Rightarrow> pyobj" where
  "start items = PyDict (start_loop [] 0 items)"

text \<open>
  lark's \<^verbatim>\<open>Transformer\<close> visits the tree bottom-up, the children of a node from left to
  right, and calls the method named after the node on the transformed children. An
  exception in a method ends the visit. Inside a value no method changes the
  transformer, so a value is transformed to its result alone.
\<close>

fun transform_value :: "transformer \<Rightarrow> value_tree \<Rightarrow> error + pyobj"
  and transform_values :: "transformer \<Rightarrow> value_tree list \<Rightarrow> error + pyobj list" where
  "transform_value self (Number_node token) = number token"
| "transform_value self (String_node token) = Inr (string token)"
| "transform_value self (Array_node children) =
     (case transform_values self children of
        Inl e \<Rightarrow> Inl e
      | Inr items \<Rightarrow> Inr (array items))"
| "transform_value self (Resolve_const_node name) = resolve_const self name"
| "transform_values self [] = Inr []"
| "transform_values self (t # ts) =
     (case transform_value self t of
        Inl e \<Rightarrow> Inl e
      | Inr v \<Rightarrow> (case transform_values self ts of
                   Inl e \<Rightarrow> Inl e
                 | Inr vs \<Rightarrow> Inr (v # vs)))"

fun transform_item :: "transformer \<Rightarrow> item_tree \<Rightarrow> error + pyobj \<times> transformer" where
  "transform_item self (Assign_const_node name t) =
     (case transform_value self t of
        Inl e \<Rightarrow> Inl e
      | Inr v \<Rightarrow> Inr (assign_const self name v))"
| "transform_item self (Value_node t) =
     (case transform_value self t of
        Inl e \<Rightarrow> Inl e
      | Inr v \<Rightarrow> Inr (v, self))"

fun transform_items :: "transformer \<Rightarrow> item_tree list \<Rightarrow> error + pyobj list \<times> transformer" where
  "transform_items self [] = Inr ([], self)"
| "transform_items self (it # its) =
     (case transform_item self it of
        Inl e \<Rightarrow> Inl e
      | Inr (v, self') \<Rightarrow>
          (case transform_items self' its of
             Inl e \<Rightarrow> Inl e
           | Inr (vs, self'') \<Rightarrow> Inr (v # vs, self'')))"

text \<open>
  \<^verbatim>\<open>ConfigTransformer().transform(parse_tree)\<close>. The rule is written \<^verbatim>\<open>?start\<close>: with
  exactly one top-level item lark puts that item's tree in the place of the
  \<^verbatim>\<open>start\<close> node, and the method \<^verbatim>\<open>start\<close> is not called.
\<close>

definition transform :: "item_tree list \<Rightarrow> error + pyobj" where
  "transform items =
     (case items of
        [it] \<Rightarrow> (case transform_item init it of Inl e \<Rightarrow> Inl e | Inr (v, self) \<Rightarrow> Inr v)
      | _ \<Rightarrow> (case transform_items init items of
                Inl e \<Rightarrow> Inl e
              | Inr (vs, self) \<Rightarrow> Inr (start vs)))"

section \<open>The grammar\<close>

subsection \<open>Terminals\<close>

text \<open>
  One constructor for each terminal of the grammar that is not ignored; NAME, NUMBER
  and STRING\_DOUBLE carry the matched text.
\<close>

datatype token =
    DEF | EQUAL | LBRACE | RBRACE | COMMA
  | NAME string | NUMBER string | STRING_DOUBLE string
  | QUESTION_MARK | LBRACKET | RBRACKET

text \<open>\<^verbatim>\<open>WS: /[ \t\f\r\n]/+\<close> of lark's common grammar.\<close>

definition is_ws :: "char \<Rightarrow> bool" where
  "is_ws c = (c = CHR '' '' \<or> c = CHR 0x09 \<or> c = CHR 0x0C \<or> c = CHR 0x0D \<or> c = CHR 0x0A)"

definition is_upper :: "char \<Rightarrow> bool" where
  "is_upper c = (65 \<le> (of_char c :: nat) \<and> (of_char c :: nat) \<le> 90)"

definition is_lower :: "char \<Rightarrow> bool" where
  "is_lower c = (97 \<le> (of_char c :: nat) \<and> (of_char c :: nat) \<le> 122)"

text \<open>\<^verbatim>\<open>NAME: /[_A-Z][_a-zA-Z0-9]*/\<close>\<close>

definition is_name_start :: "char \<Rightarrow> bool" where
  "is_name_start c = (c = CHR ''_'' \<or> is_upper c)"

definition is_name_char :: "char \<Rightarrow> bool" where
  "is_name_char c = (c = CHR ''_'' \<or> is_lower c \<or> is_upper c \<or> is_digit c)"

text \<open>
  \<^verbatim>\<open>COMMENT_MULTI: /\|#[\s\S]*?#\|/\<close>, after its opening \<^verbatim>\<open>|#\<close>: the text that follows
  the first \<^verbatim>\<open>#|\<close>, or \<open>None\<close> when there is none.
\<close>

fun comment_multi_end :: "string \<Rightarrow> string option" where
  "comment_multi_end (c # d # r) =
     (if c = CHR ''#'' \<and> d = CHR ''|'' then Some r else comment_multi_end (d # r))"
| "comment_multi_end r = None"

lemma comment_multi_end_length: "comment_multi_end s = Some r \<Longrightarrow> length r < length s"
  by (induction s rule: comment_multi_end.induct) (auto split: if_splits)

text \<open>
  What stands at the head of a text \<open>c # cs\<close>: an ignored terminal (\<open>Skip\<close>, with the
  text behind it), a token (\<open>Tok\<close>, with the text behind it), or nothing that the
  grammar knows (\<open>Bad\<close>). No two terminals of the grammar match at the same place (a
  NUMBER that starts with \<^verbatim>\<open>-\<close> goes on with a digit, a COMMENT\_SINGLE with a second
  \<^verbatim>\<open>-\<close>), so the order in which lark tries them does not matter. A regular expression
  takes as much as it can: \<^verbatim>\<open>.\<close> in \<^verbatim>\<open>/--.*/\<close> is every character but the line feed, which
  stays behind and is skipped as white space.
\<close>

datatype lexeme = Skip string | Tok token string | Bad

definition next_lexeme :: "char \<Rightarrow> string \<Rightarrow> lexeme" where
  "next_lexeme c cs =
     (if is_ws c then Skip cs
      else if c = CHR ''-'' \<and> take 1 cs = ''-''
        then Skip (dropWhile (\<lambda>x. x \<noteq> CHR 0x0A) (drop 1 cs))
      else if c = CHR ''|'' \<and> take 1 cs = ''#''
        then (case comment_multi_end (drop 1 cs) of None \<Rightarrow> Bad | Some r \<Rightarrow> Skip r)
      else if c # take 2 cs = ''def'' then Tok DEF (drop 2 cs)
      else if c = CHR ''='' then Tok EQUAL cs
      else if c = CHR ''{'' then Tok LBRACE cs
      else if c = CHR ''}'' then Tok RBRACE cs
      else if c = CHR '','' then Tok COMMA cs
      else if c = CHR ''?'' then Tok QUESTION_MARK cs
      else if c = CHR ''['' then Tok LBRACKET cs
      else if c = CHR '']'' then Tok RBRACKET cs
      else if is_name_start c
        then Tok (NAME (c # takeWhile is_name_char cs)) (dropWhile is_name_char cs)
      else if is_digit c \<or> ((c = CHR ''+'' \<or> c = CHR ''-'') \<and> cs \<noteq> [] \<and> is_digit (hd cs))
        then Tok (NUMBER (c # takeWhile is_digit cs)) (dropWhile is_digit cs)
      else if c = CHR 0x22 \<and> CHR 0x22 \<in> set cs
        then Tok (STRING_DOUBLE (c # takeWhile (\<lambda>x. x \<noteq> CHR 0x22) cs @ [CHR 0x22]))
               (drop 1 (dropWhile (\<lambda>x. x \<noteq> CHR 0x22) cs))
      else Bad)"

text \<open>Whatever is matched, the text behind it is no longer than \<open>cs\<close>.\<close>

fun rest_of :: "lexeme \<Rightarrow> string" where
  "rest_of (Skip r) = r"
| "rest_of (Tok t r) = r"
| "rest_of Bad = []"

lemma next_lexeme_rest: "length (rest_of (next_lexeme c cs)) \<le> length cs"
proof -
  have multi: "\<And>r. comment_multi_end (drop (Suc 0) cs) = Some r \<Longrightarrow> length r \<le> length cs"
    by (drule comment_multi_end_length) simp
  have drop1: "\<And>P. length (dropWhile P (drop (Suc 0) cs)) \<le> length cs"
    by (rule order_trans [OF length_dropWhile_le]) simp
  have drop2: "\<And>P. length (dropWhile P cs) - Suc 0 \<le> length cs"
    by (rule order_trans [OF diff_le_self length_dropWhile_le])
  show ?thesis
    by (simp add: next_lexeme_def length_dropWhile_le multi drop1 drop2 split: option.split)
qed

definition emit :: "token \<Rightarrow> error + token list \<Rightarrow> error + token list" where
  "emit t r = (case r of Inl e \<Rightarrow> Inl e | Inr ts \<Rightarrow> Inr (t # ts))"

text \<open>The lexer: a place where no terminal matches is an error.\<close>

function lex :: "string \<Rightarrow> error + token list" where
  "lex [] = Inr []"
| "lex (c # cs) =
     (case next_lexeme c cs of
        Skip r \<Rightarrow> lex r
      | Tok t r \<Rightarrow> emit t (lex r)
      | Bad \<Rightarrow> Inl UnexpectedInput)"
  by pat_completeness auto
termination
proof (relation "measure length")
  fix c :: char and cs r :: string
  assume "next_lexeme c cs = Skip r"
  then show "(r, c # cs) \<in> measure length"
    using next_lexeme_rest [of c cs] by simp
next
  fix c :: char and cs r :: string and t :: token
  assume "next_lexeme c cs = Tok t r"
  then show "(r, c # cs) \<in> measure length"
    using next_lexeme_rest [of c cs] by simp
qed simp

declare lex.simps(2) [simp del]

subsection \<open>Rules\<close>

text \<open>
  The parser for
  \<^verbatim>\<open>
    ?start: (assignment | value)*
    assignment: "def" NAME "=" value -> assign_const
    const_expr: QUESTION_MARK LBRACKET NAME RBRACKET -> resolve_const
    ?value: number | string | array | const_expr
    array: "{" value ("," value)* "}"
  \<close>
  It reads the tokens from left to right as lark's LALR parser does and, like it,
  keeps what is still open on a stack: \<open>open_arrays\<close> holds, innermost first, the
  elements read so far (last first) of each array whose \<^verbatim>\<open>}\<close> is still to come;
  \<open>def_name\<close> is the name of the assignment being read, if any; \<open>done\<close> holds the
  finished top-level items, last first. \<open>parse_start\<close> is between two items,
  \<open>parse_value\<close> is where a value must begin, \<open>parse_after_value\<close> is just behind a
  complete value. A token that does not fit is an error.
\<close>

fun parse_start :: "item_tree list \<Rightarrow> token list \<Rightarrow> error + item_tree list"
  and parse_value ::
    "item_tree list \<Rightarrow> string option \<Rightarrow> value_tree list list \<Rightarrow> token list \<Rightarrow> error + item_tree list"
  and parse_after_value ::
    "item_tree list \<Rightarrow> string option \<Rightarrow> value_tree list list \<Rightarrow> value_tree \<Rightarrow> token list
       \<Rightarrow> error + item_tree list" where
  "parse_start done [] = Inr (rev done)"
| "parse_start done (DEF # ts) =
     (case ts of
        NAME n # EQUAL # r \<Rightarrow> parse_value done (Some n) [] r
      | _ \<Rightarrow> Inl UnexpectedInput)"
| "parse_start done (t # ts) = parse_value done None [] (t # ts)"
| "parse_value done def_name open_arrays (NUMBER s # ts) =
     parse_after_value done def_name open_arrays (Number_node s) ts"
| "parse_value done def_name open_arrays (STRING_DOUBLE s # ts) =
     parse_after_value done def_name open_arrays (String_node s) ts"
| "parse_value done def_name open_arrays (QUESTION_MARK # ts) =
     (case ts of
        LBRACKET # NAME n # RBRACKET # r \<Rightarrow>
          parse_after_value done def_name open_arrays (Resolve_const_node n) r
      | _ \<Rightarrow> Inl UnexpectedInput)"
| "parse_value done def_name open_arrays (LBRACE # ts) =
     parse_value done def_name ([] # open_arrays) ts"
| "parse_value done def_name open_arrays ts = Inl UnexpectedInput"
| "parse_after_value done def_name [] v ts =
     parse_start ((case def_name of None \<Rightarrow> Value_node v | Some n \<Rightarrow> Assign_const_node n v) # done) ts"
| "parse_after_value done def_name (elems # open_arrays) v (COMMA # ts) =
     parse_value done def_name ((v # elems) # open_arrays) ts"
| "parse_after_value done def_name (elems # open_arrays) v (RBRACE # ts) =
     parse_after_value done def_name open_arrays (Array_node (rev (v # elems))) ts"
| "parse_after_value done def_name (elems # open_arrays) v ts = Inl UnexpectedInput"

definition parse :: "string \<Rightarrow> error + item_tree list" where
  "parse text = (case lex text of Inl e \<Rightarrow> Inl e | Inr ts \<Rightarrow> parse_start [] ts)"

section \<open>The XML emitter\<close>

subsection \<open>Building the element tree\<close>

text \<open>
  An \<^verbatim>\<open>xml.etree.ElementTree.Element\<close>: tag, text (\<open>None\<close> until it is set) and
  children. \<^verbatim>\<open>ET.SubElement(parent, tag)\<close> appends a new element to the parent's
  children; the program then fills that child and touches nothing else, so the model
  appends the finished child.
\<close>

datatype element = Element (tag: string) (text_of: "string option") (children: "element list")

definition append_child :: "element \<Rightarrow> element \<Rightarrow> element" where
  "append_child parent child = Element (tag parent) (text_of parent) (children parent @ [child])"

definition set_text :: "element \<Rightarrow> string \<Rightarrow> element" where
  "set_text parent s = Element (tag parent) (Some s) (children parent)"

text \<open>
  \<^verbatim>\<open>_to_xml_recurse\<close> with its two loops, over \<^verbatim>\<open>data.items()\<close> and over the items of a
  list. Whatever is neither a dict nor a list becomes the text \<^verbatim>\<open>str(data)\<close>.
\<close>

fun to_xml_recurse :: "element \<Rightarrow> pyobj \<Rightarrow> element"
  and to_xml_dict_items :: "element \<Rightarrow> (string \<times> pyobj) list \<Rightarrow> element"
  and to_xml_list_items :: "element \<Rightarrow> pyobj list \<Rightarrow> element" where
  "to_xml_recurse parent_element (PyDict kvs) = to_xml_dict_items parent_element kvs"
| "to_xml_recurse parent_element (PyList xs) =
     append_child parent_element (to_xml_list_items (Element ''array'' None []) xs)"
| "to_xml_recurse parent_element (PyInt i) = set_text parent_element (py_str (PyInt i))"
| "to_xml_recurse parent_element (PyStr s) = set_text parent_element (py_str (PyStr s))"
| "to_xml_recurse parent_element (PyTuple n v) = set_text parent_element (py_str (PyTuple n v))"
| "to_xml_dict_items parent_element [] = parent_element"
| "to_xml_dict_items parent_element ((key, val) # kvs) =
     to_xml_dict_items
       (append_child parent_element (to_xml_recurse (Element key None []) val)) kvs"
| "to_xml_list_items array_container [] = array_container"
| "to_xml_list_items array_container (item # items) =
     to_xml_list_items
       (append_child array_container (to_xml_recurse (Element ''item'' None []) item)) items"

subsection \<open>Serialising, as the Python library does it\<close>

text \<open>
  \<^verbatim>\<open>ET.tostring\<close> writes tags and texts as they are (escaping \<^verbatim>\<open>&\<close>, \<^verbatim>\<open><\<close> and \<^verbatim>\<open>>\<close>
  in texts), and \<^verbatim>\<open>xml.dom.minidom.parseString\<close> reads the result back with expat.
  Expat refuses a tag that is not an XML name and a text with a character that XML
  does not allow; it turns each line break of a text into one line feed. A text
  that is empty gives no text node.
\<close>

definition xml_name_start :: "char \<Rightarrow> bool" where
  "xml_name_start c =
     (let n = (of_char c :: nat)
      in c = CHR ''_'' \<or> is_upper c \<or> is_lower c
         \<or> (192 \<le> n \<and> n \<noteq> 215 \<and> n \<noteq> 247))"

definition xml_name_char :: "char \<Rightarrow> bool" where
  "xml_name_char c =
     (xml_name_start c \<or> is_digit c \<or> c = CHR ''-'' \<or> c = CHR ''.'' \<or> c = CHR 0xB7)"

definition xml_ncname :: "string \<Rightarrow> bool" where
  "xml_ncname s = (case s of [] \<Rightarrow> False | c # r \<Rightarrow> xml_name_start c \<and> list_all xml_name_char r)"

text \<open>A name with a colon is a prefixed name, and \<^verbatim>\<open>xml\<close> is the one prefix that is bound.\<close>

definition xml_name :: "string \<Rightarrow> bool" where
  "xml_name s = (xml_ncname s \<or> (take 4 s = ''xml:'' \<and> xml_ncname (drop 4 s)))"

definition xml_char :: "char \<Rightarrow> bool" where
  "xml_char c = (32 \<le> (of_char c :: nat) \<or> c = CHR 0x09 \<or> c = CHR 0x0A \<or> c = CHR 0x0D)"

fun wellformed :: "element \<Rightarrow> bool" where
  "wellformed (Element t txt cs) =
     (xml_name t \<and> (case txt of None \<Rightarrow> True | Some s \<Rightarrow> list_all xml_char s)
      \<and> list_all wellformed cs)"

fun xml_newlines :: "string \<Rightarrow> string" where
  "xml_newlines (c # d # r) =
     (if c = CHR 0x0D \<and> d = CHR 0x0A then CHR 0x0A # xml_newlines r
      else if c = CHR 0x0D then CHR 0x0A # xml_newlines (d # r)
      else c # xml_newlines (d # r))"
| "xml_newlines [c] = (if c = CHR 0x0D then [CHR 0x0A] else [c])"
| "xml_newlines [] = []"

datatype node = Element_node string "node list" | Text_node string

fun dom_of :: "element \<Rightarrow> node" where
  "dom_of (Element t txt cs) =
     Element_node t
       ((case txt of
           None \<Rightarrow> []
         | Some s \<Rightarrow> if s = [] then [] else [Text_node (xml_newlines s)])
        @ map dom_of cs)"

text \<open>\<^verbatim>\<open>xml.dom.minidom.parseString(ET.tostring(root, encoding='unicode'))\<close>\<close>

definition reparsed :: "element \<Rightarrow> error + node" where
  "reparsed root = (if wellformed root then Inr (dom_of root) else Inl ExpatError)"

text \<open>
  \<^verbatim>\<open>toprettyxml(indent="  ")\<close>: minidom's \<^verbatim>\<open>writexml\<close> with the indent added at each
  level \<^verbatim>\<open>"  "\<close> and the line end \<^verbatim>\<open>"\n"\<close>. An element whose only child is a text
  is written on one line; \<^verbatim>\<open>_write_data\<close> escapes the text (as in CPython 3.11, where
  it replaces the double quote too).
\<close>

definition write_data :: "string \<Rightarrow> string" where
  "write_data s =
     concat (map (\<lambda>c. if c = CHR ''&'' then ''&amp;''
                       else if c = CHR ''<'' then ''&lt;''
                       else if c = CHR 0x22 then ''&quot;''
                       else if c = CHR ''>'' then ''&gt;''
                       else [c]) s)"

fun writexml :: "string \<Rightarrow> node \<Rightarrow> string"
  and writexml_nodes :: "string \<Rightarrow> node list \<Rightarrow> string" where
  "writexml indent (Text_node d) = write_data (indent @ d @ [CHR 0x0A])"
| "writexml indent (Element_node t cs) =
     indent @ ''<'' @ t @
     (case cs of
        [] \<Rightarrow> ''/>'' @ [CHR 0x0A]
      | [Text_node d] \<Rightarrow> ''>'' @ write_data d @ ''</'' @ t @ ''>'' @ [CHR 0x0A]
      | _ \<Rightarrow> ''>'' @ [CHR 0x0A] @ writexml_nodes (indent @ ''  '') cs @ indent
               @ ''</'' @ t @ ''>'' @ [CHR 0x0A])"
| "writexml_nodes indent [] = []"
| "writexml_nodes indent (n # ns) = writexml indent n @ writexml_nodes indent ns"

definition toprettyxml :: "node \<Rightarrow> string" where
  "toprettyxml root = ''<?xml version='' @ [CHR 0x22] @ ''1.0'' @ [CHR 0x22] @ '' ?>'' @ [CHR 0x0A]
                      @ writexml [] root"

subsection \<open>\<^verbatim>\<open>splitlines(True)\<close>, \<^verbatim>\<open>startswith\<close>, \<^verbatim>\<open>strip()\<close>\<close>

definition is_linebreak :: "char \<Rightarrow> bool" where
  "is_linebreak c =
     (c = CHR 0x0A \<or> c = CHR 0x0B \<or> c = CHR 0x0C \<or> c = CHR 0x0D
      \<or> c = CHR 0x1C \<or> c = CHR 0x1D \<or> c = CHR 0x1E \<or> c = CHR 0x85)"

text \<open>
  \<open>splitlines_from cur s\<close>: the lines of \<open>s\<close>, each with its line end, when \<open>cur\<close>
  (last character first) is the part of the current line already read.
\<close>

fun splitlines_from :: "string \<Rightarrow> string \<Rightarrow> string list" where
  "splitlines_from cur [] = (if cur = [] then [] else [rev cur])"
| "splitlines_from cur (c # r) =
     (if c = CHR 0x0D \<and> take 1 r = [CHR 0x0A]
        then rev (CHR 0x0A # c # cur) # splitlines_from [] (drop 1 r)
      else if is_linebreak c then rev (c # cur) # splitlines_from [] r
      else splitlines_from (c # cur) r)"

definition splitlines :: "string \<Rightarrow> string list" where
  "splitlines s = splitlines_from [] s"

definition startswith :: "string \<Rightarrow> string \<Rightarrow> bool" where
  "startswith s p = (take (length p) s = p)"

definition is_space :: "char \<Rightarrow> bool" where
  "is_space c =
     (let n = (of_char c :: nat)
      in (9 \<le> n \<and> n \<le> 13) \<or> (28 \<le> n \<and> n \<le> 32) \<or> n = 133 \<or> n = 160)"

definition strip :: "string \<Rightarrow> string" where
  "strip s = rev (dropWhile is_space (rev (dropWhile is_space s)))"

subsection \<open>\<^verbatim>\<open>generate_xml_from_dict\<close> and \<^verbatim>\<open>main\<close>\<close>

definition generate_xml_from_dict :: "pyobj \<Rightarrow> string \<Rightarrow> error + string" where
  "generate_xml_from_dict data root_name =
     (let root = to_xml_recurse (Element root_name None []) data
      in case reparsed root of
           Inl e \<Rightarrow> Inl e
         | Inr reparsed_dom \<Rightarrow>
             (let pretty_xml = toprettyxml reparsed_dom;
                  lines = splitlines pretty_xml
              in Inr (if lines \<noteq> [] \<and> startswith (hd lines) ''<?xml''
                      then strip (concat (tl lines))
                      else strip pretty_xml)))"

text \<open>
  \<^verbatim>\<open>main\<close> from the text of the input file on. \<open>result_dict\<close> is what
  \<^verbatim>\<open>transformer.transform(parse_tree)\<close> returns. For \<open>main\<close>, \<open>Inr\<close> is what is printed to
  the standard output, \<open>Inl\<close> is a run that prints an error message and exits with 1,
  having printed no document.
\<close>

definition result_dict :: "string \<Rightarrow> error + pyobj" where
  "result_dict text =
     (case parse text of
        Inl e \<Rightarrow> Inl e
      | Inr parse_tree \<Rightarrow> transform parse_tree)"

definition main :: "string \<Rightarrow> error + string" where
  "main text =
     (case result_dict text of
        Inl e \<Rightarrow> Inl e
      | Inr d \<Rightarrow> generate_xml_from_dict d ''config'')"

section \<open>Notions of the specification\<close>

text \<open>
  The words of the claims, as definitions over the model: what the terminals match,
  what a parse tree of the grammar looks like, which names an input uses before it
  defines them, what the Document holds, which parts of a text are comments.
\<close>

subsection \<open>Literals and names\<close>

text \<open>
  The texts that the terminals match: \<^verbatim>\<open>NUMBER: /[+-]?\d+/\<close>, an optional sign and one
  or more digits; \<^verbatim>\<open>NAME: /[_A-Z][_a-zA-Z0-9]*/\<close>; \<^verbatim>\<open>STRING_DOUBLE: /"[^"]*"/\<close>, a
  double quote, characters other than the double quote, a double quote. A scalar
  literal is a number or a string.
\<close>

definition number_literal :: "string \<Rightarrow> bool" where
  "number_literal s =
     (case s of
        [] \<Rightarrow> False
      | c # r \<Rightarrow> if c = CHR ''+'' \<or> c = CHR ''-'' then r \<noteq> [] \<and> list_all is_digit r
                else list_all is_digit s)"

definition is_name :: "string \<Rightarrow> bool" where
  "is_name s = (case s of [] \<Rightarrow> False | c # r \<Rightarrow> is_name_start c \<and> list_all is_name_char r)"

definition string_literal :: "string \<Rightarrow> bool" where
  "string_literal s =
     (case s of
        [] \<Rightarrow> False
      | c # r \<Rightarrow> c = CHR 0x22 \<and> r \<noteq> [] \<and> last r = CHR 0x22 \<and> CHR 0x22 \<notin> set (butlast r))"

definition scalar_literal :: "string \<Rightarrow> bool" where
  "scalar_literal v = (number_literal v \<or> string_literal v)"

definition scalar_token :: "string \<Rightarrow> token" where
  "scalar_token v = (if string_literal v then STRING_DOUBLE v else NUMBER v)"

definition scalar_node :: "string \<Rightarrow> value_tree" where
  "scalar_node v = (if string_literal v then String_node v else Number_node v)"

text \<open>
  A token, a lexeme and a parse tree are well-formed when the texts they carry are
  texts of their terminals and every array node has a child.
\<close>

fun token_ok :: "token \<Rightarrow> bool" where
  "token_ok (NAME s) = is_name s"
| "token_ok (NUMBER s) = number_literal s"
| "token_ok (STRING_DOUBLE s) = string_literal s"
| "token_ok t = True"

fun lexeme_ok :: "lexeme \<Rightarrow> bool" where
  "lexeme_ok (Tok t r) = token_ok t"
| "lexeme_ok l = True"

fun wf_value :: "value_tree \<Rightarrow> bool" where
  "wf_value (Number_node s) = number_literal s"
| "wf_value (String_node s) = string_literal s"
| "wf_value (Array_node ts) = (ts \<noteq> [] \<and> list_all wf_value ts)"
| "wf_value (Resolve_const_node n) = is_name n"

fun wf_item :: "item_tree \<Rightarrow> bool" where
  "wf_item (Assign_const_node n t) = (is_name n \<and> wf_value t)"
| "wf_item (Value_node t) = wf_value t"

subsection \<open>The token sequences of the grammar\<close>

text \<open>
  The grammar read from the tree to the tokens: the token sequence from which a rule
  builds a given tree. An array is \<^verbatim>\<open>"{" value ("," value)* "}"\<close>, an assignment is
  \<^verbatim>\<open>"def" NAME "=" value\<close>, the start is a sequence of items.
\<close>

fun tokens_of_value :: "value_tree \<Rightarrow> token list"
  and tokens_of_values :: "value_tree list \<Rightarrow> token list" where
  "tokens_of_value (Number_node s) = [NUMBER s]"
| "tokens_of_value (String_node s) = [STRING_DOUBLE s]"
| "tokens_of_value (Resolve_const_node n) = [QUESTION_MARK, LBRACKET, NAME n, RBRACKET]"
| "tokens_of_value (Array_node vs) = LBRACE # tokens_of_values vs @ [RBRACE]"
| "tokens_of_values [] = []"
| "tokens_of_values [v] = tokens_of_value v"
| "tokens_of_values (v # w # vs) = tokens_of_value v @ COMMA # tokens_of_values (w # vs)"

fun tokens_of_item :: "item_tree \<Rightarrow> token list" where
  "tokens_of_item (Assign_const_node n v) = DEF # NAME n # EQUAL # tokens_of_value v"
| "tokens_of_item (Value_node v) = tokens_of_value v"

definition tokens_of_items :: "item_tree list \<Rightarrow> token list" where
  "tokens_of_items its = concat (map tokens_of_item its)"

text \<open>
  For the parser's stack: the item that a finished top-level value makes, and the
  tokens already read of the arrays that are still open.
\<close>

fun item_of :: "string option \<Rightarrow> value_tree \<Rightarrow> item_tree" where
  "item_of None v = Value_node v"
| "item_of (Some n) v = Assign_const_node n v"

fun open_tokens :: "value_tree list list \<Rightarrow> token list" where
  "open_tokens [] = []"
| "open_tokens (elems # open_arrays) =
     open_tokens open_arrays
     @ LBRACE # concat (map (\<lambda>e. tokens_of_value e @ [COMMA]) (rev elems))"

text \<open>
  The value subtree of an item; trees in which every array node has a child; results
  in which every list has an element.
\<close>

fun item_value :: "item_tree \<Rightarrow> value_tree" where
  "item_value (Assign_const_node n t) = t"
| "item_value (Value_node t) = t"

fun nonempty_array_nodes :: "value_tree \<Rightarrow> bool" where
  "nonempty_array_nodes (Array_node ts) = (ts \<noteq> [] \<and> list_all nonempty_array_nodes ts)"
| "nonempty_array_nodes t = True"

fun nonempty_arrays :: "pyobj \<Rightarrow> bool" where
  "nonempty_arrays (PyInt i) = True"
| "nonempty_arrays (PyStr s) = True"
| "nonempty_arrays (PyList xs) = (xs \<noteq> [] \<and> list_all nonempty_arrays xs)"
| "nonempty_arrays (PyTuple n v) = nonempty_arrays v"
| "nonempty_arrays (PyDict kvs) = list_all (\<lambda>kv. nonempty_arrays (snd kv)) kvs"

definition nonempty_only :: "transformer \<Rightarrow> bool" where
  "nonempty_only s = (\<forall>n v. constants s n = Some v \<longrightarrow> nonempty_arrays v)"

subsection \<open>References and definitions\<close>

text \<open>
  \<open>refs t\<close>: the names referenced in a value, in the order of the traversal.
  \<open>undefined_refs defined items\<close>: the references of the items whose name has no
  definition before them in the text, in the order of the traversal, when
  \<open>defined\<close> holds the names defined so far. The name of an assignment counts as
  defined behind the assignment, not inside its own right-hand side. \<open>assigned\<close>:
  the names that the items assign.
\<close>

fun refs :: "value_tree \<Rightarrow> string list"
  and refs_list :: "value_tree list \<Rightarrow> string list" where
  "refs (Number_node s) = []"
| "refs (String_node s) = []"
| "refs (Array_node ts) = refs_list ts"
| "refs (Resolve_const_node n) = [n]"
| "refs_list [] = []"
| "refs_list (t # ts) = refs t @ refs_list ts"

fun undefined_refs :: "string list \<Rightarrow> item_tree list \<Rightarrow> string list" where
  "undefined_refs defined [] = []"
| "undefined_refs defined (Assign_const_node n t # its) =
     [r \<leftarrow> refs t. r \<notin> set defined] @ undefined_refs (n # defined) its"
| "undefined_refs defined (Value_node t # its) =
     [r \<leftarrow> refs t. r \<notin> set defined] @ undefined_refs defined its"

fun assigned :: "item_tree list \<Rightarrow> string list" where
  "assigned [] = []"
| "assigned (Assign_const_node n t # its) = n # assigned its"
| "assigned (Value_node t # its) = assigned its"

subsection \<open>Values and the Document\<close>

text \<open>
  The Value of the specification: a number, a text or an array of Values. A
  transformer whose constant table holds Values only. What the transformation of an
  item returns: for an assignment the pair of its name and a Value, for a bare value
  a Value.
\<close>

fun is_value :: "pyobj \<Rightarrow> bool" where
  "is_value (PyInt i) = True"
| "is_value (PyStr s) = True"
| "is_value (PyList xs) = list_all is_value xs"
| "is_value (PyTuple n v) = False"
| "is_value (PyDict kvs) = False"

definition values_only :: "transformer \<Rightarrow> bool" where
  "values_only s = (\<forall>n v. constants s n = Some v \<longrightarrow> is_value v)"

fun is_tuple :: "pyobj \<Rightarrow> bool" where
  "is_tuple (PyTuple n v) = True"
| "is_tuple v = False"

fun is_bare :: "item_tree \<Rightarrow> bool" where
  "is_bare (Value_node t) = True"
| "is_bare (Assign_const_node n t) = False"

fun item_result :: "item_tree \<Rightarrow> pyobj \<Rightarrow> bool" where
  "item_result (Assign_const_node n t) r = (case r of PyTuple m x \<Rightarrow> m = n \<and> is_value x | _ \<Rightarrow> False)"
| "item_result (Value_node t) r = is_value r"

text \<open>
  The synthesized key \<^verbatim>\<open>item_<n>\<close>; the keys that begin with \<^verbatim>\<open>item_\<close>; the entries
  \<^verbatim>\<open>(key, value)\<close> in the order in which \<^verbatim>\<open>start\<close> stores them, when \<open>n\<close> bare values
  have been stored before; the first occurrences of the elements of a list, in
  order.
\<close>

definition item_key :: "nat \<Rightarrow> string" where
  "item_key n = ''item_'' @ str_nat n"

definition is_item_key :: "string \<Rightarrow> bool" where
  "is_item_key k = (take 5 k = ''item_'')"

fun tuple_name_ok :: "pyobj \<Rightarrow> bool" where
  "tuple_name_ok (PyTuple n v) = (\<not> is_item_key n)"
| "tuple_name_ok v = True"

fun entries :: "nat \<Rightarrow> pyobj list \<Rightarrow> (string \<times> pyobj) list" where
  "entries n [] = []"
| "entries n (PyTuple name val # items) = (name, val) # entries n items"
| "entries n (item # items) = (item_key n, item) # entries (Suc n) items"

definition store :: "(string \<times> pyobj) list \<Rightarrow> string \<times> pyobj \<Rightarrow> (string \<times> pyobj) list" where
  "store d e = dict_setitem d (fst e) (snd e)"

definition first_occurrences :: "'a list \<Rightarrow> 'a list" where
  "first_occurrences xs = rev (remdups (rev xs))"

subsection \<open>White space and comments\<close>

text \<open>
  \<open>contains_close body\<close>: the text holds \<^verbatim>\<open>#|\<close>. \<open>ignored c\<close>: the text \<open>c\<close> consists
  of white space, single-line comments that end with their line, and block comments
  that end at their first \<^verbatim>\<open>#|\<close>. \<open>ignored_tail c\<close>: the same, except that a last
  single-line comment may end with the text.
\<close>

fun contains_close :: "string \<Rightarrow> bool" where
  "contains_close (c # d # r) = ((c = CHR ''#'' \<and> d = CHR ''|'') \<or> contains_close (d # r))"
| "contains_close r = False"

inductive ignored :: "string \<Rightarrow> bool" where
  ignored_empty: "ignored []"
| ignored_ws: "is_ws c \<Longrightarrow> ignored r \<Longrightarrow> ignored (c # r)"
| ignored_single:
    "CHR 0x0A \<notin> set body \<Longrightarrow> ignored r \<Longrightarrow> ignored (''--'' @ body @ CHR 0x0A # r)"
| ignored_multi:
    "\<not> contains_close body \<Longrightarrow> ignored r \<Longrightarrow> ignored (''|#'' @ body @ ''#|'' @ r)"

inductive ignored_tail :: "string \<Rightarrow> bool" where
  tail_closed: "ignored a \<Longrightarrow> ignored_tail a"
| tail_single: "ignored a \<Longrightarrow> CHR 0x0A \<notin> set body \<Longrightarrow> ignored_tail (a @ ''--'' @ body)"

text \<open>
  \<open>uncommented c w\<close>: \<open>w\<close> is the text \<open>c\<close> with its comments removed. A single-line
  comment goes up to the end of its line and leaves the line end behind.
\<close>

inductive uncommented :: "string \<Rightarrow> string \<Rightarrow> bool" where
  unc_empty: "uncommented [] []"
| unc_ws: "is_ws c \<Longrightarrow> uncommented r w \<Longrightarrow> uncommented (c # r) (c # w)"
| unc_single:
    "CHR 0x0A \<notin> set body \<Longrightarrow> uncommented r w
     \<Longrightarrow> uncommented (''--'' @ body @ CHR 0x0A # r) (CHR 0x0A # w)"
| unc_multi:
    "\<not> contains_close body \<Longrightarrow> uncommented r w
     \<Longrightarrow> uncommented (''|#'' @ body @ ''#|'' @ r) w"

inductive uncommented_tail :: "string \<Rightarrow> string \<Rightarrow> bool" where
  unc_closed: "uncommented a w \<Longrightarrow> uncommented_tail a w"
| unc_last: "uncommented a w \<Longrightarrow> CHR 0x0A \<notin> set body \<Longrightarrow> uncommented_tail (a @ ''--'' @ body) w"

subsection \<open>Data that the XML parser accepts\<close>

text \<open>
  \<open>xml_safe data\<close>: every key of a dict is an XML name and every text consists of
  characters that XML allows. A number is written with digits and a sign; a pair is
  written as its \<^verbatim>\<open>str\<close>.
\<close>

fun xml_safe :: "pyobj \<Rightarrow> bool"
  and xml_safe_list :: "pyobj list \<Rightarrow> bool"
  and xml_safe_items :: "(string \<times> pyobj) list \<Rightarrow> bool" where
  "xml_safe (PyInt i) = True"
| "xml_safe (PyStr s) = list_all xml_char s"
| "xml_safe (PyList xs) = xml_safe_list xs"
| "xml_safe (PyTuple n v) = list_all xml_char (py_str (PyTuple n v))"
| "xml_safe (PyDict kvs) = xml_safe_items kvs"
| "xml_safe_list [] = True"
| "xml_safe_list (x # xs) = (xml_safe x \<and> xml_safe_list xs)"
| "xml_safe_items [] = True"
| "xml_safe_items ((k, v) # kvs) = (xml_name k \<and> xml_safe v \<and> xml_safe_items kvs)"

section \<open>Decimal numerals\<close>

lemma less_10_cases:
  "(d::nat) < 10 \<Longrightarrow> d = 0 \<or> d = 1 \<or> d = 2 \<or> d = 3 \<or> d = 4 \<or> d = 5 \<or> d = 6 \<or> d = 7 \<or> d = 8 \<or> d = 9"
  by arith

lemma is_digit_digit_char: "d < 10 \<Longrightarrow> is_digit (digit_char d)"
  by (drule less_10_cases) (auto simp: is_digit_def digit_char_def)

lemma digit_val_digit_char: "d < 10 \<Longrightarrow> digit_val (digit_char d) = d"
  by (drule less_10_cases) (auto simp: digit_val_def digit_char_def)

lemma str_nat_digits: "list_all is_digit (str_nat n)"
proof (induction n rule: str_nat.induct)
  case (1 n)
  show ?case
  proof (cases "n < 10")
    case True
    then show ?thesis by (simp add: str_nat.simps [of n] is_digit_digit_char)
  next
    case False
    with 1 show ?thesis by (simp add: str_nat.simps [of n] is_digit_digit_char)
  qed
qed

lemma str_nat_nonempty: "str_nat n \<noteq> []"
  by (simp add: str_nat.simps [of n])

lemma nat_of_digits_snoc: "nat_of_digits (ds @ [c]) = 10 * nat_of_digits ds + digit_val c"
  by (simp add: nat_of_digits_def)

lemma nat_of_digits_str_nat: "nat_of_digits (str_nat n) = n"
proof (induction n rule: str_nat.induct)
  case (1 n)
  show ?case
  proof (cases "n < 10")
    case True
    then show ?thesis by (simp add: str_nat.simps [of n] nat_of_digits_def digit_val_digit_char)
  next
    case False
    with 1 show ?thesis
      by (simp add: str_nat.simps [of n] nat_of_digits_snoc digit_val_digit_char)
  qed
qed

lemma str_nat_inj: "str_nat m = str_nat n \<Longrightarrow> m = n"
  by (metis nat_of_digits_str_nat)

lemma is_digit_not_sign: "is_digit c \<Longrightarrow> c \<noteq> CHR ''-'' \<and> c \<noteq> CHR ''+''"
  by (auto simp: is_digit_def)

lemma py_int_digits:
  assumes "ds \<noteq> []" "list_all is_digit ds"
  shows "py_int ds = Some (int (nat_of_digits ds))"
proof -
  from assms obtain c r where ds: "ds = c # r" and c: "is_digit c"
    by (cases ds) auto
  from is_digit_not_sign [OF c] assms show ?thesis
    by (simp add: py_int_def ds)
qed

lemma py_int_minus_digits:
  assumes "ds \<noteq> []" "list_all is_digit ds"
  shows "py_int (CHR ''-'' # ds) = Some (- int (nat_of_digits ds))"
  using assms by (simp add: py_int_def)

lemma py_int_plus_digits:
  assumes "ds \<noteq> []" "list_all is_digit ds"
  shows "py_int (CHR ''+'' # ds) = Some (int (nat_of_digits ds))"
  using assms by (simp add: py_int_def)

lemma py_int_str_int: "py_int (str_int i) = Some i"
proof (cases "i < 0")
  case True
  then show ?thesis
    by (simp add: str_int_def py_int_minus_digits str_nat_nonempty str_nat_digits
        nat_of_digits_str_nat)
next
  case False
  then show ?thesis
    by (simp add: str_int_def py_int_digits str_nat_nonempty str_nat_digits
        nat_of_digits_str_nat)
qed


lemma number_literal_str_int: "number_literal (str_int i)"
proof (cases "i < 0")
  case True
  then show ?thesis
    by (simp add: number_literal_def str_int_def str_nat_nonempty str_nat_digits)
next
  case False
  obtain c r where cr: "str_nat (nat i) = c # r"
    using str_nat_nonempty [of "nat i"] by (cases "str_nat (nat i)") auto
  with str_nat_digits [of "nat i"] have "is_digit c" "list_all is_digit r"
    by auto
  with False cr is_digit_not_sign [of c] show ?thesis
    by (simp add: number_literal_def str_int_def)
qed

lemma number_literal_py_int: "number_literal s \<Longrightarrow> \<exists>i. py_int s = Some i"
  by (cases s) (auto simp: number_literal_def py_int_def split: if_splits)

section \<open>The lexer yields only texts of its terminals\<close>

lemma list_all_takeWhile: "list_all P (takeWhile P xs)"
  by (induction xs) auto

lemma emit_Inr: "emit t r = Inr ts \<longleftrightarrow> (\<exists>ts'. r = Inr ts' \<and> ts = t # ts')"
  by (cases r) (auto simp: emit_def)

lemma number_token_ok:
  assumes "is_digit c \<or> ((c = CHR ''+'' \<or> c = CHR ''-'') \<and> cs \<noteq> [] \<and> is_digit (hd cs))"
  shows "number_literal (c # takeWhile is_digit cs)"
proof (cases "is_digit c")
  case True
  with is_digit_not_sign [of c] show ?thesis
    by (simp add: number_literal_def list_all_takeWhile)
next
  case False
  with assms obtain d r where "cs = d # r" "is_digit d" "c = CHR ''+'' \<or> c = CHR ''-''"
    by (cases cs) auto
  then show ?thesis
    by (auto simp: number_literal_def list_all_takeWhile)
qed

lemma string_token_ok:
  "string_literal (CHR 0x22 # takeWhile (\<lambda>x. x \<noteq> CHR 0x22) cs @ [CHR 0x22])"
proof -
  have "CHR 0x22 \<notin> set (takeWhile (\<lambda>x. x \<noteq> CHR 0x22) cs)"
    by (auto dest: set_takeWhileD)
  then show ?thesis
    by (simp add: string_literal_def)
qed

lemma next_lexeme_ok: "lexeme_ok (next_lexeme c cs)"
  by (simp add: next_lexeme_def is_name_def list_all_takeWhile number_token_ok string_token_ok
      split: option.split)

lemma next_lexeme_token_ok: "next_lexeme c cs = Tok t r \<Longrightarrow> token_ok t"
  using next_lexeme_ok [of c cs] by simp

lemma lex_tokens_ok: "lex s = Inr ts \<Longrightarrow> list_all token_ok ts"
proof (induction s arbitrary: ts rule: lex.induct)
  case 1
  then show ?case by simp
next
  case (2 c cs)
  show ?case
  proof (cases "next_lexeme c cs")
    case (Skip r)
    with 2 show ?thesis by (simp add: lex.simps(2))
  next
    case (Tok t r)
    with "2.prems" obtain ts' where ts: "lex r = Inr ts'" "ts = t # ts'"
      by (auto simp: lex.simps(2) emit_Inr)
    from "2.IH"(2) [OF Tok ts(1)] next_lexeme_token_ok [OF Tok] ts(2) show ?thesis
      by simp
  next
    case Bad
    with "2.prems" show ?thesis by (simp add: lex.simps(2))
  qed
qed

section \<open>The parser builds well-formed trees\<close>

lemma parse_wf:
  "list_all token_ok ts \<Longrightarrow> list_all wf_item done \<Longrightarrow>
   parse_start done ts = Inr items \<Longrightarrow> list_all wf_item items"
  "list_all token_ok ts \<Longrightarrow> list_all wf_item done \<Longrightarrow>
   (case def_name of None \<Rightarrow> True | Some n \<Rightarrow> is_name n) \<Longrightarrow>
   list_all (list_all wf_value) open_arrays \<Longrightarrow>
   parse_value done def_name open_arrays ts = Inr items \<Longrightarrow> list_all wf_item items"
  "list_all token_ok ts \<Longrightarrow> list_all wf_item done \<Longrightarrow>
   (case def_name of None \<Rightarrow> True | Some n \<Rightarrow> is_name n) \<Longrightarrow>
   list_all (list_all wf_value) open_arrays \<Longrightarrow> wf_value v \<Longrightarrow>
   parse_after_value done def_name open_arrays v ts = Inr items \<Longrightarrow> list_all wf_item items"
proof (induction "done" ts and "done" def_name open_arrays ts and "done" def_name open_arrays v ts
    arbitrary: items and items and items
    rule: parse_start_parse_value_parse_after_value.induct)
qed (auto split: list.splits token.splits option.splits)

section \<open>The transformer fails at the first undefined reference\<close>

text \<open>
  A well-formed value is transformed without error when all its references are
  defined; otherwise the error names the first reference that is not.
\<close>

lemma number_wf: "number_literal s \<Longrightarrow> \<exists>i. number s = Inr (PyInt i)"
  by (drule number_literal_py_int) (auto simp: number_def)

lemma transform_value_refs:
  "wf_value t \<Longrightarrow>
     (case [r \<leftarrow> refs t. constants s r = None] of
        [] \<Rightarrow> \<exists>v. transform_value s t = Inr v
      | n # ns \<Rightarrow> transform_value s t = Inl (UndefinedConstant n))"
  "list_all wf_value ts \<Longrightarrow>
     (case [r \<leftarrow> refs_list ts. constants s r = None] of
        [] \<Rightarrow> \<exists>vs. transform_values s ts = Inr vs
      | n # ns \<Rightarrow> transform_values s ts = Inl (UndefinedConstant n))"
proof (induction s t and s ts rule: transform_value_transform_values.induct)
  case (1 self token)
  then show ?case by (auto dest: number_wf)
next
  case (2 self token)
  then show ?case by simp
next
  case (3 self children)
  then show ?case by (auto split: list.splits)
next
  case (4 self name)
  then show ?case by (auto simp: resolve_const_def split: option.splits)
next
  case (5 self)
  then show ?case by simp
next
  case (6 self t ts)
  then have t: "case [r \<leftarrow> refs t. constants self r = None] of
        [] \<Rightarrow> \<exists>v. transform_value self t = Inr v
      | n # ns \<Rightarrow> transform_value self t = Inl (UndefinedConstant n)"
    by simp
  show ?case
  proof (cases "[r \<leftarrow> refs t. constants self r = None]")
    case Nil
    with t obtain v where v: "transform_value self t = Inr v" by auto
    from 6 v have "case [r \<leftarrow> refs_list ts. constants self r = None] of
        [] \<Rightarrow> \<exists>vs. transform_values self ts = Inr vs
      | n # ns \<Rightarrow> transform_values self ts = Inl (UndefinedConstant n)"
      by simp
    with Nil v show ?thesis by (auto split: list.splits)
  next
    case (Cons n ns)
    with t show ?thesis by simp
  qed
qed

lemma filter_undefined:
  "dom (constants s) = set defined \<Longrightarrow>
   [r \<leftarrow> xs. r \<notin> set defined] = [r \<leftarrow> xs. constants s r = None]"
  by (rule filter_cong) (auto simp: domIff)

lemma transform_items_refs:
  "list_all wf_item its \<Longrightarrow> dom (constants s) = set defined \<Longrightarrow>
     (case undefined_refs defined its of
        [] \<Rightarrow> \<exists>vs s'. transform_items s its = Inr (vs, s')
      | n # ns \<Rightarrow> transform_items s its = Inl (UndefinedConstant n))"
proof (induction its arbitrary: s defined)
  case Nil
  then show ?case by simp
next
  case (Cons it its)
  show ?case
  proof (cases it)
    case (Assign_const_node n t)
    with Cons.prems have wf: "wf_value t" "list_all wf_item its" by simp_all
    note f = filter_undefined [OF Cons.prems(2), of "refs t"]
    show ?thesis
    proof (cases "[r \<leftarrow> refs t. constants s r = None]")
      case Nil
      with transform_value_refs(1) [OF wf(1), of s] obtain v
        where v: "transform_value s t = Inr v" by auto
      obtain s' where s': "assign_const s n v = (PyTuple n v, s')"
        "dom (constants s') = set (n # defined)"
        using Cons.prems(2) by (auto simp: assign_const_def)
      from Cons.IH [OF wf(2) s'(2)] Nil f v s' Assign_const_node show ?thesis
        by (auto split: list.splits)
    next
      case (Cons m ms)
      with transform_value_refs(1) [OF wf(1), of s] f Assign_const_node show ?thesis
        by simp
    qed
  next
    case (Value_node t)
    with Cons.prems have wf: "wf_value t" "list_all wf_item its" by simp_all
    note f = filter_undefined [OF Cons.prems(2), of "refs t"]
    show ?thesis
    proof (cases "[r \<leftarrow> refs t. constants s r = None]")
      case Nil
      with transform_value_refs(1) [OF wf(1), of s] obtain v
        where v: "transform_value s t = Inr v" by auto
      from Cons.IH [OF wf(2) Cons.prems(2)] Nil f v Value_node show ?thesis
        by (auto split: list.splits)
    next
      case (Cons m ms)
      with transform_value_refs(1) [OF wf(1), of s] f Value_node show ?thesis
        by simp
    qed
  qed
qed

lemma transform_alt:
  "transform its =
     (case transform_items init its of
        Inl e \<Rightarrow> Inl e
      | Inr (vs, s) \<Rightarrow> Inr (if length its = 1 then hd vs else start vs))"
proof (cases its)
  case Nil
  then show ?thesis by (simp add: transform_def)
next
  case (Cons it rest)
  then show ?thesis
    by (cases rest) (auto simp: transform_def split: sum.splits)
qed

lemma transform_refs:
  assumes "list_all wf_item its"
  shows "case undefined_refs [] its of
           [] \<Rightarrow> \<exists>r. transform its = Inr r
         | n # ns \<Rightarrow> transform its = Inl (UndefinedConstant n)"
  using transform_items_refs [OF assms, of init "[]"]
  by (auto simp: transform_alt init_def split: list.splits)

lemma parse_wf_items: "parse text = Inr items \<Longrightarrow> list_all wf_item items"
  by (auto simp: parse_def split: sum.splits dest: lex_tokens_ok intro: parse_wf(1) [of _ "[]"])

section \<open>The dict that \<^verbatim>\<open>start\<close> builds\<close>

text \<open>
  The loop of \<^verbatim>\<open>start\<close> stores its entries one after the other. The resulting dict
  has the keys in the order of their first occurrences and binds each key to the value
  stored last.
\<close>

lemma dict_setitem_map_of: "map_of (dict_setitem d k v) = (map_of d)(k \<mapsto> v)"
  by (induction d k v rule: dict_setitem.induct) (auto simp: fun_upd_twist)

lemma dict_setitem_keys:
  "map fst (dict_setitem d k v) = (if k \<in> fst ` set d then map fst d else map fst d @ [k])"
  by (induction d k v rule: dict_setitem.induct) auto

lemma first_occurrences_snoc:
  "first_occurrences (xs @ [k]) = (if k \<in> set xs then first_occurrences xs else first_occurrences xs @ [k])"
  by (simp add: first_occurrences_def)

lemma first_occurrences_distinct: "distinct xs \<Longrightarrow> first_occurrences xs = xs"
  by (simp add: first_occurrences_def distinct_remdups_id)

lemma distinct_first_occurrences: "distinct (first_occurrences xs)"
  by (simp add: first_occurrences_def)

lemma first_occurrences_idem_append:
  "first_occurrences (first_occurrences xs @ ys) = first_occurrences (xs @ ys)"
  by (simp add: first_occurrences_def remdups_append2)

lemma start_loop_entries: "start_loop d n items = foldl store d (entries n items)"
  by (induction d n items rule: start_loop.induct) (simp_all add: store_def item_key_def)

lemma store_map_of: "map_of (store d w) = map_of (w # d)"
  by (simp add: store_def dict_setitem_map_of)

lemma foldl_store_map_of: "map_of (foldl store d ws) = map_of (rev ws @ d)"
proof (induction ws arbitrary: d)
  case Nil
  then show ?case by simp
next
  case (Cons w ws)
  have "map_of (foldl store d (w # ws)) = map_of (rev ws @ store d w)"
    by (simp add: Cons.IH)
  also have "\<dots> = map_of (store d w) ++ map_of (rev ws)"
    by simp
  also have "\<dots> = map_of (w # d) ++ map_of (rev ws)"
    by (simp only: store_map_of)
  also have "\<dots> = map_of (rev (w # ws) @ d)"
    by simp
  finally show ?case .
qed

lemma store_keys:
  "distinct (map fst d) \<Longrightarrow> map fst (store d e) = first_occurrences (map fst d @ [fst e])"
  by (auto simp: store_def dict_setitem_keys first_occurrences_snoc first_occurrences_distinct)

lemma foldl_store_keys:
  "distinct (map fst d) \<Longrightarrow>
   map fst (foldl store d ws) = first_occurrences (map fst d @ map fst ws)"
proof (induction ws arbitrary: d)
  case Nil
  then show ?case by (simp add: first_occurrences_distinct)
next
  case (Cons w ws)
  have d': "distinct (map fst (store d w))"
    by (simp add: store_keys [OF Cons.prems] distinct_first_occurrences)
  show ?case
    using Cons.IH [OF d'] first_occurrences_idem_append [of "map fst d @ [fst w]" "map fst ws"]
    by (simp add: store_keys [OF Cons.prems])
qed

lemma start_keys:
  "map fst (start_loop [] 0 items) = first_occurrences (map fst (entries 0 items))"
  using foldl_store_keys [of "[]" "entries 0 items"] by (simp add: start_loop_entries)

lemma start_map_of:
  "map_of (start_loop [] 0 items) = map_of (rev (entries 0 items))"
  using foldl_store_map_of [of "[]" "entries 0 items"] by (simp add: start_loop_entries)

section \<open>Evaluation on concrete inputs\<close>

lemmas lex_eval = lex.simps(2) next_lexeme_def is_ws_def is_name_start_def is_name_char_def
  is_digit_def is_upper_def is_lower_def emit_def

lemmas transform_eval = transform_def init_def assign_const_def resolve_const_def number_def
  string_def array_def py_int_def nat_of_digits_def digit_val_def start_def str_nat.simps
  digit_char_def

lemmas xml_eval = generate_xml_from_dict_def py_str_def str_int_def set_text_def append_child_def
  reparsed_def xml_name_def xml_ncname_def xml_name_start_def xml_name_char_def xml_char_def
  toprettyxml_def write_data_def splitlines_def is_linebreak_def startswith_def strip_def
  is_space_def

section \<open>What the transformer returns\<close>

text \<open>
  The constant table holds Values only, so a value is transformed to a Value and an
  assignment to the pair of its name and a Value. Non-empty arrays stay non-empty.
\<close>

lemma transform_value_is_value:
  "values_only s \<Longrightarrow> transform_value s t = Inr v \<Longrightarrow> is_value v"
  "values_only s \<Longrightarrow> transform_values s ts = Inr vs \<Longrightarrow> list_all is_value vs"
  by (induction s t and s ts arbitrary: v and vs rule: transform_value_transform_values.induct)
    (auto simp: number_def string_def array_def resolve_const_def values_only_def
      split: sum.splits option.splits)

lemma transform_value_nonempty:
  "nonempty_only s \<Longrightarrow> nonempty_array_nodes t \<Longrightarrow> transform_value s t = Inr v
     \<Longrightarrow> nonempty_arrays v"
  "nonempty_only s \<Longrightarrow> list_all nonempty_array_nodes ts \<Longrightarrow> transform_values s ts = Inr vs
     \<Longrightarrow> list_all nonempty_arrays vs \<and> length vs = length ts"
  by (induction s t and s ts arbitrary: v and vs rule: transform_value_transform_values.induct)
    (auto simp: number_def string_def array_def resolve_const_def nonempty_only_def
      split: sum.splits option.splits)

lemma values_only_assign:
  "values_only s \<Longrightarrow> is_value x \<Longrightarrow> values_only (snd (assign_const s n x))"
  by (simp add: values_only_def assign_const_def)

lemma nonempty_only_assign:
  "nonempty_only s \<Longrightarrow> nonempty_arrays x \<Longrightarrow> nonempty_only (snd (assign_const s n x))"
  by (simp add: nonempty_only_def assign_const_def)

lemma fst_assign_const: "fst (assign_const s n x) = PyTuple n x"
  by (simp add: assign_const_def)

lemma transform_item_result:
  assumes "values_only s" and "transform_item s it = Inr (v, s1)"
  shows "item_result it v \<and> values_only s1"
proof (cases it)
  case (Assign_const_node n t)
  with assms(2) obtain x where x: "transform_value s t = Inr x" "assign_const s n x = (v, s1)"
    by (auto split: sum.splits)
  from transform_value_is_value(1) [OF assms(1) x(1)] have "is_value x" .
  with values_only_assign [OF assms(1) this, of n] fst_assign_const [of s n x] x(2)
    Assign_const_node show ?thesis
    by auto
next
  case (Value_node t)
  with assms(2) have "transform_value s t = Inr v" "s1 = s"
    by (auto split: sum.splits)
  with transform_value_is_value(1) [OF assms(1), of t v] assms(1) Value_node show ?thesis
    by simp
qed

lemma transform_item_nonempty:
  assumes "nonempty_only s" and "nonempty_array_nodes (item_value it)"
    and "transform_item s it = Inr (v, s1)"
  shows "nonempty_arrays v \<and> nonempty_only s1"
proof (cases it)
  case (Assign_const_node n t)
  with assms(3) obtain x where x: "transform_value s t = Inr x" "assign_const s n x = (v, s1)"
    by (auto split: sum.splits)
  from assms(2) Assign_const_node have "nonempty_array_nodes t" by simp
  from transform_value_nonempty(1) [OF assms(1) this x(1)] have "nonempty_arrays x" .
  with nonempty_only_assign [OF assms(1) this, of n] fst_assign_const [of s n x] x(2)
  show ?thesis
    by auto
next
  case (Value_node t)
  with assms(3) have "transform_value s t = Inr v" "s1 = s"
    by (auto split: sum.splits)
  with transform_value_nonempty(1) [OF assms(1), of t v] assms(1,2) Value_node show ?thesis
    by simp
qed

lemma transform_items_results:
  "values_only s \<Longrightarrow> transform_items s its = Inr (vs, s')
     \<Longrightarrow> list_all2 item_result its vs \<and> values_only s'"
proof (induction its arbitrary: s vs s')
  case Nil
  then show ?case by simp
next
  case (Cons it its)
  from Cons.prems(2) obtain v s1 ws where
    it: "transform_item s it = Inr (v, s1)" and
    its: "transform_items s1 its = Inr (ws, s')" and vs: "vs = v # ws"
    by (auto split: sum.splits)
  from transform_item_result [OF Cons.prems(1) it] Cons.IH [OF _ its] vs
  show ?case by simp
qed

lemma transform_items_nonempty:
  "nonempty_only s \<Longrightarrow> list_all (\<lambda>it. nonempty_array_nodes (item_value it)) its
     \<Longrightarrow> transform_items s its = Inr (vs, s')
     \<Longrightarrow> list_all nonempty_arrays vs \<and> nonempty_only s'"
proof (induction its arbitrary: s vs s')
  case Nil
  then show ?case by simp
next
  case (Cons it its)
  from Cons.prems(3) obtain v s1 ws where
    it: "transform_item s it = Inr (v, s1)" and
    its: "transform_items s1 its = Inr (ws, s')" and vs: "vs = v # ws"
    by (auto split: sum.splits)
  from Cons.prems(2) have it_ok: "nonempty_array_nodes (item_value it)"
    and its_ok: "list_all (\<lambda>it. nonempty_array_nodes (item_value it)) its"
    by simp_all
  from transform_item_nonempty [OF Cons.prems(1) it_ok it] Cons.IH [OF _ its_ok its] vs
  show ?case by simp
qed

lemma values_only_init: "values_only init"
  by (simp add: values_only_def init_def)

lemma nonempty_only_init: "nonempty_only init"
  by (simp add: nonempty_only_def init_def)

lemma wf_value_nonempty:
  "wf_value t \<Longrightarrow> nonempty_array_nodes t"
  "list_all wf_value ts \<Longrightarrow> list_all nonempty_array_nodes ts"
  by (induction t and ts rule: refs_refs_list.induct) auto

lemma wf_item_nonempty: "wf_item it \<Longrightarrow> nonempty_array_nodes (item_value it)"
  by (cases it) (auto dest: wf_value_nonempty(1))

lemma dict_setitem_all:
  "list_all (\<lambda>kv. P (snd kv)) d \<Longrightarrow> P v \<Longrightarrow> list_all (\<lambda>kv. P (snd kv)) (dict_setitem d k v)"
  by (induction d k v rule: dict_setitem.induct) auto

lemma start_loop_nonempty:
  "list_all (\<lambda>kv. nonempty_arrays (snd kv)) d \<Longrightarrow> list_all nonempty_arrays vs
     \<Longrightarrow> list_all (\<lambda>kv. nonempty_arrays (snd kv)) (start_loop d n vs)"
  by (induction d n vs rule: start_loop.induct) (simp_all add: dict_setitem_all)

lemma transform_items_length:
  "transform_items s its = Inr (vs, s') \<Longrightarrow> length vs = length its"
  by (induction its arbitrary: s vs s') (auto split: sum.splits)

lemma result_nonempty:
  assumes "result_dict text = Inr r"
  shows "nonempty_arrays r"
proof -
  from assms obtain items where p: "parse text = Inr items" and t: "transform items = Inr r"
    by (auto simp: result_dict_def split: sum.splits)
  from t obtain vs s where vs: "transform_items init items = Inr (vs, s)"
    and r: "r = (if length items = 1 then hd vs else start vs)"
    by (auto simp: transform_alt split: sum.splits)
  have "list_all (\<lambda>it. nonempty_array_nodes (item_value it)) items"
    using parse_wf_items [OF p] by (auto simp: list_all_iff dest: wf_item_nonempty)
  from transform_items_nonempty [OF nonempty_only_init this vs]
  have all: "list_all nonempty_arrays vs" by simp
  show ?thesis
  proof (cases "length items = 1")
    case True
    with transform_items_length [OF vs] obtain v where "vs = [v]"
      by (cases vs) auto
    with all r True show ?thesis by simp
  next
    case False
    with r start_loop_nonempty [of "[]" vs 0] all show ?thesis
      by (simp add: start_def)
  qed
qed

section \<open>Synthesized keys\<close>

lemma is_item_key_item_key: "is_item_key (item_key n)"
  by (simp add: is_item_key_def item_key_def)

lemma is_name_not_item_key: "is_name n \<Longrightarrow> \<not> is_item_key n"
  by (cases n) (auto simp: is_name_def is_item_key_def is_name_start_def is_upper_def)

lemma item_key_inj: "item_key m = item_key n \<Longrightarrow> m = n"
  by (simp add: item_key_def str_nat_inj)

lemma dict_setitem_new: "k \<notin> fst ` set d \<Longrightarrow> dict_setitem d k v = d @ [(k, v)]"
  by (induction d k v rule: dict_setitem.induct) auto

lemma filter_dict_setitem_other:
  "\<not> P k \<Longrightarrow> [kv \<leftarrow> dict_setitem d k v. P (fst kv)] = [kv \<leftarrow> d. P (fst kv)]"
  by (induction d k v rule: dict_setitem.induct) auto

lemma dict_setitem_key_set: "fst ` set (dict_setitem d k v) = insert k (fst ` set d)"
  by (induction d k v rule: dict_setitem.induct) auto

lemma start_loop_tuple:
  "start_loop d n (PyTuple name val # items) = start_loop (dict_setitem d name val) n items"
  by simp

lemma start_loop_bare:
  "\<not> is_tuple item \<Longrightarrow>
   start_loop d n (item # items) = start_loop (dict_setitem d (item_key n) item) (Suc n) items"
  by (cases item) (simp_all add: item_key_def)

lemma start_loop_item_keys:
  assumes "list_all tuple_name_ok vs"
    and "\<forall>k \<in> fst ` set d. is_item_key k \<longrightarrow> (\<exists>j<n. k = item_key j)"
  shows "[kv \<leftarrow> start_loop d n vs. is_item_key (fst kv)]
         = [kv \<leftarrow> d. is_item_key (fst kv)]
           @ zip (map item_key [n..<n + length [v \<leftarrow> vs. \<not> is_tuple v]]) [v \<leftarrow> vs. \<not> is_tuple v]"
  using assms
proof (induction vs arbitrary: d n)
  case Nil
  then show ?case by simp
next
  case (Cons v vs)
  show ?case
  proof (cases "is_tuple v")
    case True
    then obtain name val where v: "v = PyTuple name val" by (cases v) auto
    with Cons.prems(1) have nk: "\<not> is_item_key name" and vs: "list_all tuple_name_ok vs"
      by simp_all
    have inv: "\<forall>k \<in> fst ` set (dict_setitem d name val). is_item_key k \<longrightarrow> (\<exists>j<n. k = item_key j)"
      using Cons.prems(2) nk by (auto simp: dict_setitem_key_set)
    from Cons.IH [OF vs inv] v nk show ?thesis
      by (simp add: filter_dict_setitem_other)
  next
    case False
    from Cons.prems(1) have vs: "list_all tuple_name_ok vs" by simp
    have fresh: "item_key n \<notin> fst ` set d"
    proof
      assume "item_key n \<in> fst ` set d"
      with Cons.prems(2) is_item_key_item_key [of n] obtain j where "j < n" "item_key n = item_key j"
        by blast
      then show False by (auto dest: item_key_inj)
    qed
    have inv: "\<forall>k \<in> fst ` set (dict_setitem d (item_key n) v).
                 is_item_key k \<longrightarrow> (\<exists>j<Suc n. k = item_key j)"
      using Cons.prems(2) by (auto simp: dict_setitem_key_set less_Suc_eq)
    have upt: "\<And>m. [n..<Suc (n + m)] = n # [Suc n..<Suc (n + m)]"
      by (rule upt_conv_Cons) simp
    from Cons.IH [OF vs inv] False show ?thesis
      by (simp add: start_loop_bare dict_setitem_new [OF fresh] is_item_key_item_key upt
          del: upt_Suc)
  qed
qed

lemma items_results_tuples:
  "list_all2 item_result its vs \<Longrightarrow> list_all wf_item its \<Longrightarrow>
   list_all tuple_name_ok vs
   \<and> length [v \<leftarrow> vs. \<not> is_tuple v] = length [it \<leftarrow> its. is_bare it]"
proof (induction its vs rule: list_all2_induct)
  case Nil
  then show ?case by simp
next
  case (Cons it its v vs)
  then show ?case
    by (cases it; cases v) (auto dest: is_name_not_item_key)
qed

section \<open>A resolved reference keeps its value\<close>

lemma transform_items_append:
  "transform_items s (xs @ ys) =
     (case transform_items s xs of
        Inl e \<Rightarrow> Inl e
      | Inr (vs, s') \<Rightarrow>
          (case transform_items s' ys of
             Inl e \<Rightarrow> Inl e
           | Inr (ws, s'') \<Rightarrow> Inr (vs @ ws, s'')))"
  by (induction xs arbitrary: s) (auto split: sum.splits)

lemma entries_append:
  "entries n (xs @ ys) = entries n xs @ entries (n + length [v \<leftarrow> xs. \<not> is_tuple v]) ys"
  by (induction n xs rule: entries.induct) simp_all

lemma entries_key:
  "(k, v) \<in> set (entries n ws) \<Longrightarrow> is_item_key k \<or> PyTuple k v \<in> set ws"
  by (induction n ws rule: entries.induct) (auto simp: is_item_key_item_key)

lemma item_result_tuple_assigned:
  "list_all2 item_result its ws \<Longrightarrow> PyTuple k v \<in> set ws \<Longrightarrow> k \<in> set (assigned its)"
proof (induction its ws rule: list_all2_induct)
  case Nil
  then show ?case by simp
next
  case (Cons it its w ws)
  then show ?case
    by (cases it; cases w) auto
qed

lemma map_of_append_notin:
  "k \<notin> fst ` set xs \<Longrightarrow> map_of (xs @ ys) k = map_of ys k"
  by (simp add: map_add_def map_of_eq_None_iff [THEN iffD2])

lemma consumer_keeps_value:
  assumes pre: "transform_items init pre = Inr (vs1, s1)"
    and a: "constants s1 a = Some v"
    and b: "is_name b" "b \<notin> set (assigned post)"
    and two: "pre \<noteq> [] \<or> post \<noteq> []"
    and r: "transform (pre @ Assign_const_node b (Resolve_const_node a) # post) = Inr r"
  shows "\<exists>d. r = PyDict d \<and> map_of d b = Some v"
proof -
  let ?its = "pre @ Assign_const_node b (Resolve_const_node a) # post"
  from two have len: "length ?its \<noteq> 1" by (cases pre; cases post) auto
  from r len obtain vs s2 where vs: "transform_items init ?its = Inr (vs, s2)"
    and rd: "r = start vs"
    by (auto simp: transform_alt split: sum.splits)
  obtain s1' where s1': "assign_const s1 b v = (PyTuple b v, s1')"
    by (simp add: assign_const_def)
  from vs pre a s1' obtain ws where ws: "transform_items s1' post = Inr (ws, s2)"
    and vs_eq: "vs = vs1 @ PyTuple b v # ws"
    by (auto simp: transform_items_append resolve_const_def split: sum.splits)
  from transform_items_results [OF values_only_init pre] have vo1: "values_only s1" by simp
  with a have "is_value v" by (simp add: values_only_def)
  from values_only_assign [OF vo1 this, of b] s1' have "values_only s1'" by simp
  from transform_items_results [OF this ws] have res: "list_all2 item_result post ws" by simp
  let ?k = "length [v \<leftarrow> vs1. \<not> is_tuple v]"
  have notin: "b \<notin> fst ` set (rev (entries ?k ws))"
  proof
    assume "b \<in> fst ` set (rev (entries ?k ws))"
    then obtain x where "(b, x) \<in> set (entries ?k ws)" by auto
    from entries_key [OF this] is_name_not_item_key [OF b(1)] have "PyTuple b x \<in> set ws"
      by simp
    from item_result_tuple_assigned [OF res this] b(2) show False by simp
  qed
  have "entries 0 vs = entries 0 vs1 @ (b, v) # entries ?k ws"
    by (simp add: vs_eq entries_append)
  then have "rev (entries 0 vs) = rev (entries ?k ws) @ (b, v) # rev (entries 0 vs1)"
    by simp
  then have "map_of (rev (entries 0 vs)) b = map_of ((b, v) # rev (entries 0 vs1)) b"
    using map_of_append_notin [OF notin, of "(b, v) # rev (entries 0 vs1)"] by simp
  then have "map_of (start_loop [] 0 vs) b = Some v"
    by (simp add: start_map_of)
  with rd show ?thesis by (simp add: start_def)
qed

section \<open>The lexer skips white space and comments\<close>

lemma dropWhile_until: "x \<notin> set body \<Longrightarrow> dropWhile (\<lambda>c. c \<noteq> x) (body @ x # r) = x # r"
  by (induction body) auto

lemma takeWhile_until: "x \<notin> set body \<Longrightarrow> takeWhile (\<lambda>c. c \<noteq> x) (body @ x # r) = body"
  by (induction body) auto

lemma dropWhile_none: "x \<notin> set body \<Longrightarrow> dropWhile (\<lambda>c. c \<noteq> x) body = []"
  by (induction body) auto

lemma comment_multi_end_close:
  "\<not> contains_close body \<Longrightarrow> comment_multi_end (body @ CHR ''#'' # CHR ''|'' # r) = Some r"
  by (induction body rule: contains_close.induct) auto

lemma lex_ws: "is_ws c \<Longrightarrow> lex (c # r) = lex r"
  by (simp add: lex.simps(2) next_lexeme_def)

lemma lex_single: "CHR 0x0A \<notin> set body \<Longrightarrow> lex (''--'' @ body @ CHR 0x0A # r) = lex r"
  by (simp add: lex.simps(2) [of "CHR ''-''"] next_lexeme_def is_ws_def dropWhile_until
      lex_ws [of "CHR 0x0A"])

lemma lex_single_end: "CHR 0x0A \<notin> set body \<Longrightarrow> lex (''--'' @ body) = Inr []"
  by (simp add: lex.simps(2) [of "CHR ''-''"] next_lexeme_def is_ws_def dropWhile_none)

lemma lex_multi: "\<not> contains_close body \<Longrightarrow> lex (''|#'' @ body @ ''#|'' @ r) = lex r"
  by (simp add: lex.simps(2) [of "CHR ''|''"] next_lexeme_def is_ws_def comment_multi_end_close)

lemma lex_ignored: "ignored a \<Longrightarrow> lex (a @ r) = lex r"
proof (induction a rule: ignored.induct)
  case ignored_empty
  then show ?case by simp
next
  case (ignored_ws c a)
  then show ?case by (simp add: lex_ws)
next
  case (ignored_single body a)
  then show ?case using lex_single [of body "a @ r"] by simp
next
  case (ignored_multi body a)
  then show ?case using lex_multi [of body "a @ r"] by simp
qed

lemma lex_ignored_tail: "ignored_tail c \<Longrightarrow> lex c = Inr []"
proof (induction c rule: ignored_tail.induct)
  case (tail_closed a)
  then show ?case using lex_ignored [of a "[]"] by simp
next
  case (tail_single a body)
  then show ?case using lex_ignored [of a "''--'' @ body"] lex_single_end [of body] by simp
qed

section \<open>A scalar literal between ignored texts\<close>

lemma is_ws_not_digit: "is_ws c \<Longrightarrow> \<not> is_digit c"
  by (auto simp: is_ws_def is_digit_def)

lemma ignored_hd: "ignored a \<Longrightarrow> a = [] \<or> \<not> is_digit (hd a)"
proof (induction a rule: ignored.induct)
  case ignored_empty
  then show ?case by simp
next
  case (ignored_ws c r)
  then show ?case by (simp add: is_ws_not_digit)
next
  case (ignored_single body r)
  then show ?case by (simp add: is_digit_def)
next
  case (ignored_multi body r)
  then show ?case by (simp add: is_digit_def)
qed

lemma ignored_tail_hd: "ignored_tail c \<Longrightarrow> c = [] \<or> \<not> is_digit (hd c)"
proof (induction c rule: ignored_tail.induct)
  case (tail_closed a)
  then show ?case by (rule ignored_hd)
next
  case (tail_single a body)
  from ignored_hd [OF tail_single(1)] show ?case
    by (cases a) (auto simp: is_digit_def)
qed

lemma digits_then:
  "list_all is_digit ds \<Longrightarrow> c2 = [] \<or> \<not> is_digit (hd c2) \<Longrightarrow>
   takeWhile is_digit (ds @ c2) = ds \<and> dropWhile is_digit (ds @ c2) = c2"
  by (induction ds) (cases c2; simp)+

lemma digit_facts:
  "is_digit c \<Longrightarrow>
   \<not> is_ws c \<and> \<not> is_name_start c \<and> c \<noteq> CHR ''-'' \<and> c \<noteq> CHR ''|'' \<and> c \<noteq> CHR ''d''
   \<and> c \<noteq> CHR ''='' \<and> c \<noteq> CHR ''{'' \<and> c \<noteq> CHR ''}'' \<and> c \<noteq> CHR '','' \<and> c \<noteq> CHR ''?''
   \<and> c \<noteq> CHR ''['' \<and> c \<noteq> CHR '']''"
  by (auto simp: is_digit_def is_ws_def is_name_start_def is_upper_def)

lemma next_lexeme_digit:
  "is_digit c \<Longrightarrow>
   next_lexeme c cs = Tok (NUMBER (c # takeWhile is_digit cs)) (dropWhile is_digit cs)"
  by (frule digit_facts) (simp add: next_lexeme_def)

lemma next_lexeme_plus:
  "is_digit d \<Longrightarrow>
   next_lexeme (CHR ''+'') (d # cs)
     = Tok (NUMBER (CHR ''+'' # d # takeWhile is_digit cs)) (dropWhile is_digit cs)"
  by (simp add: next_lexeme_def is_ws_def is_name_start_def is_upper_def)

lemma next_lexeme_minus:
  "is_digit d \<Longrightarrow>
   next_lexeme (CHR ''-'') (d # cs)
     = Tok (NUMBER (CHR ''-'' # d # takeWhile is_digit cs)) (dropWhile is_digit cs)"
  by (frule digit_facts) (simp add: next_lexeme_def is_ws_def is_name_start_def is_upper_def)

lemma next_lexeme_sign:
  "c = CHR ''+'' \<or> c = CHR ''-'' \<Longrightarrow> is_digit d \<Longrightarrow>
   next_lexeme c (d # cs)
     = Tok (NUMBER (c # d # takeWhile is_digit cs)) (dropWhile is_digit cs)"
  using next_lexeme_plus next_lexeme_minus by blast

lemma next_lexeme_string:
  "CHR 0x22 \<notin> set body \<Longrightarrow>
   next_lexeme (CHR 0x22) (body @ CHR 0x22 # r) = Tok (STRING_DOUBLE (CHR 0x22 # body @ [CHR 0x22])) r"
  by (simp add: next_lexeme_def is_digit_def is_ws_def is_name_start_def is_upper_def
      takeWhile_until dropWhile_until)

lemma lex_number:
  assumes "number_literal v" and "ignored_tail c2"
  shows "lex (v @ c2) = Inr [NUMBER v]"
proof -
  note tl = ignored_tail_hd [OF assms(2)] and e = lex_ignored_tail [OF assms(2)]
  from assms(1) obtain c r where v: "v = c # r" by (cases v) (auto simp: number_literal_def)
  show ?thesis
  proof (cases "c = CHR ''+'' \<or> c = CHR ''-''")
    case True
    with assms(1) v obtain d ds where r: "r = d # ds" and d: "is_digit d" "list_all is_digit ds"
      by (cases r) (auto simp: number_literal_def)
    from digits_then [OF d(2) tl] next_lexeme_sign [OF True d(1), of "ds @ c2"] e
    show ?thesis
      by (simp add: v r lex.simps(2) emit_def)
  next
    case False
    with assms(1) v have d: "is_digit c" "list_all is_digit r"
      by (auto simp: number_literal_def)
    from digits_then [OF d(2) tl] next_lexeme_digit [OF d(1), of "r @ c2"] e
    show ?thesis
      by (simp add: v lex.simps(2) emit_def)
  qed
qed

lemma string_literal_shape:
  "string_literal v \<Longrightarrow> \<exists>body. v = CHR 0x22 # body @ [CHR 0x22] \<and> CHR 0x22 \<notin> set body"
proof -
  assume a: "string_literal v"
  then obtain r where v: "v = CHR 0x22 # r" and r: "r \<noteq> []" "last r = CHR 0x22"
    "CHR 0x22 \<notin> set (butlast r)"
    by (cases v) (auto simp: string_literal_def)
  from r(1,2) have "r = butlast r @ [CHR 0x22]"
    by (metis append_butlast_last_id)
  with v r(3) show ?thesis by blast
qed

lemma lex_string:
  assumes "string_literal v" and "ignored_tail c2"
  shows "lex (v @ c2) = Inr [STRING_DOUBLE v]"
proof -
  from string_literal_shape [OF assms(1)] obtain body
    where v: "v = CHR 0x22 # body @ [CHR 0x22]" and b: "CHR 0x22 \<notin> set body" by blast
  from next_lexeme_string [OF b, of c2] lex_ignored_tail [OF assms(2)] show ?thesis
    by (simp add: v lex.simps(2) emit_def)
qed

lemma number_not_string: "number_literal v \<Longrightarrow> \<not> string_literal v"
  by (cases v) (auto simp: number_literal_def string_literal_def is_digit_def split: if_splits)

lemma lex_scalar:
  assumes "scalar_literal v" and "ignored c1" and "ignored_tail c2"
  shows "lex (c1 @ v @ c2) = Inr [scalar_token v]"
  using assms lex_number [of v c2] lex_string [of v c2] number_not_string [of v]
  by (auto simp: lex_ignored scalar_literal_def scalar_token_def)

lemma parse_scalar:
  assumes "scalar_literal v" and "ignored c1" and "ignored_tail c2"
  shows "parse (c1 @ v @ c2) = Inr [Value_node (scalar_node v)]"
  using lex_scalar [OF assms]
  by (simp add: parse_def scalar_token_def scalar_node_def)

lemma parse_ignored: "ignored_tail c \<Longrightarrow> parse c = Inr []"
  by (simp add: parse_def lex_ignored_tail)

lemma is_ws_newline: "is_ws (CHR 0x0A)"
  by (simp add: is_ws_def)

lemma uncommented_ignored: "uncommented c w \<Longrightarrow> ignored c \<and> ignored w"
proof (induction c w rule: uncommented.induct)
  case unc_empty
  then show ?case by (simp add: ignored_empty)
next
  case (unc_ws c r w)
  then show ?case by (simp add: ignored_ws)
next
  case (unc_single body r w)
  then show ?case
    using ignored_single [of body r] ignored_ws [of "CHR 0x0A" w] is_ws_newline by simp
next
  case (unc_multi body r w)
  then show ?case
    using ignored_multi [of body r] by simp
qed

lemma uncommented_tail_ignored: "uncommented_tail c w \<Longrightarrow> ignored_tail c \<and> ignored_tail w"
proof (induction c w rule: uncommented_tail.induct)
  case (unc_closed a w)
  then show ?case by (auto dest: uncommented_ignored intro: tail_closed)
next
  case (unc_last a w body)
  from uncommented_ignored [OF unc_last(1)] have "ignored a" "ignored w" by simp_all
  with tail_single [of a body] unc_last(2) show ?case
    by (simp add: tail_closed)
qed

lemma generate_empty: "generate_xml_from_dict (PyDict []) ''config'' = Inr ''<config/>''"
  by (simp add: xml_eval is_upper_def is_lower_def is_digit_def)

lemma result_ignored: "ignored_tail text \<Longrightarrow> result_dict text = Inr (PyDict [])"
  by (simp add: result_dict_def parse_ignored transform_def start_def)

lemma result_scalar:
  assumes "scalar_literal v" and "ignored c1" and "ignored_tail c2"
  shows "result_dict (c1 @ v @ c2) = transform [Value_node (scalar_node v)]"
  by (simp add: result_dict_def parse_scalar [OF assms])

lemma transform_scalar:
  "scalar_literal v \<Longrightarrow> \<exists>d. transform [Value_node (scalar_node v)] = Inr d"
  by (auto simp: transform_def scalar_node_def scalar_literal_def dest: number_wf)

section \<open>When the serialisation succeeds\<close>

text \<open>
  The element tree built from a parent without text is well-formed exactly when the
  tag of the parent is an XML name, the children it already has are well-formed and
  the data is \<open>xml_safe\<close>.
\<close>

lemma is_digit_xml_char: "is_digit c \<Longrightarrow> xml_char c"
  by (simp add: is_digit_def xml_char_def)

lemma digits_xml_chars: "list_all is_digit ds \<Longrightarrow> list_all xml_char ds"
  by (induction ds) (auto intro: is_digit_xml_char)

lemma str_int_xml_chars: "list_all xml_char (str_int i)"
proof -
  have "xml_char (CHR ''-'')" by (simp add: xml_char_def)
  then show ?thesis
    by (simp add: str_int_def digits_xml_chars [OF str_nat_digits])
qed

lemma xml_name_array: "xml_name ''array''"
  by (simp add: xml_name_def xml_ncname_def xml_name_start_def xml_name_char_def is_upper_def
      is_lower_def)

lemma xml_name_item: "xml_name ''item''"
  by (simp add: xml_name_def xml_ncname_def xml_name_start_def xml_name_char_def is_upper_def
      is_lower_def)

lemma xml_name_config: "xml_name ''config''"
  by (simp add: xml_name_def xml_ncname_def xml_name_start_def xml_name_char_def is_upper_def
      is_lower_def)

lemma wellformed_to_xml:
  "wellformed (to_xml_recurse (Element t None cs) data)
     \<longleftrightarrow> xml_name t \<and> list_all wellformed cs \<and> xml_safe data"
  "wellformed (to_xml_dict_items (Element t None cs) kvs)
     \<longleftrightarrow> xml_name t \<and> list_all wellformed cs \<and> xml_safe_items kvs"
  "wellformed (to_xml_list_items (Element t None cs) items)
     \<longleftrightarrow> xml_name t \<and> list_all wellformed cs \<and> xml_safe_list items"
proof (induction "Element t None cs" data and "Element t None cs" kvs
    and "Element t None cs" items
    arbitrary: t cs and t cs and t cs rule: to_xml_recurse_to_xml_dict_items_to_xml_list_items.induct)
  case (1 kvs)
  then show ?case by simp
next
  case (2 xs)
  then show ?case by (auto simp: append_child_def xml_name_array)
next
  case (3 i)
  then show ?case by (auto simp: set_text_def py_str_def str_int_xml_chars)
next
  case (4 s)
  then show ?case by (auto simp: set_text_def py_str_def)
next
  case (5 n v)
  then show ?case by (auto simp: set_text_def)
next
  case 6
  then show ?case by simp
next
  case (7 key val kvs)
  then show ?case by (auto simp: append_child_def)
next
  case 8
  then show ?case by simp
next
  case (9 item items)
  then show ?case by (auto simp: append_child_def xml_name_item)
qed

lemma generate_iff:
  "(\<exists>s. generate_xml_from_dict data root_name = Inr s) \<longleftrightarrow> xml_name root_name \<and> xml_safe data"
  using wellformed_to_xml(1) [of root_name "[]" data]
  by (auto simp: generate_xml_from_dict_def reparsed_def Let_def)

lemma generate_fails:
  "\<not> (xml_name root_name \<and> xml_safe data) \<Longrightarrow> generate_xml_from_dict data root_name = Inl ExpatError"
  using wellformed_to_xml(1) [of root_name "[]" data]
  by (auto simp: generate_xml_from_dict_def reparsed_def Let_def)

section \<open>The parser and the token sequences of the grammar\<close>

text \<open>
  The parser returns a tree for exactly the token sequences that the grammar derives
  for it: it accepts the token sequence of every tree whose arrays are non-empty and
  returns that tree, and whatever it returns has the tokens read as its token
  sequence.
\<close>

lemma parse_after_value_top:
  "parse_after_value done d [] v ts = parse_start (item_of d v # done) ts"
  by (cases d) simp_all

lemma parse_value_tokens:
  "nonempty_array_nodes v \<Longrightarrow>
   parse_value done d st (tokens_of_value v @ rest) = parse_after_value done d st v rest"
  "vs \<noteq> [] \<Longrightarrow> list_all nonempty_array_nodes vs \<Longrightarrow>
   parse_value done d (acc # st) (tokens_of_values vs @ RBRACE # rest)
     = parse_after_value done d st (Array_node (rev acc @ vs)) rest"
proof (induction v and vs arbitrary: st rest and acc st rest
    rule: tokens_of_value_tokens_of_values.induct)
  case (1 s)
  then show ?case by simp
next
  case (2 s)
  then show ?case by simp
next
  case (3 n)
  then show ?case by simp
next
  case (4 vs)
  from 4(2) have "vs \<noteq> []" "list_all nonempty_array_nodes vs" by simp_all
  from 4(1) [OF this, of "[]" st rest] show ?case by simp
next
  case 5
  then show ?case by simp
next
  case (6 v)
  then have "nonempty_array_nodes v" by simp
  from 6(1) [OF this, of "acc # st" "RBRACE # rest"] show ?case by simp
next
  case (7 v w vs)
  then have v: "nonempty_array_nodes v" and ws: "w # vs \<noteq> []"
    "list_all nonempty_array_nodes (w # vs)" by simp_all
  from 7(1) [OF v, of "acc # st" "COMMA # tokens_of_values (w # vs) @ RBRACE # rest"]
    7(2) [OF ws, of "v # acc" st rest]
  show ?case by simp
qed

lemma tokens_of_value_head:
  "nonempty_array_nodes v \<Longrightarrow>
   \<exists>t ts. tokens_of_value v = t # ts \<and> t \<noteq> DEF"
  by (cases v) auto

lemma parse_start_value:
  assumes "nonempty_array_nodes v"
  shows "parse_start done (tokens_of_value v @ rest) = parse_start (Value_node v # done) rest"
proof -
  from tokens_of_value_head [OF assms] obtain t ts
    where t: "tokens_of_value v = t # ts" "t \<noteq> DEF" by blast
  then have "parse_start done (tokens_of_value v @ rest)
               = parse_value done None [] (tokens_of_value v @ rest)"
    by (cases t) simp_all
  with parse_value_tokens(1) [OF assms, of "done" None "[]" rest] show ?thesis
    by simp
qed

lemma parse_start_tokens:
  "list_all (\<lambda>it. nonempty_array_nodes (item_value it)) its \<Longrightarrow>
   parse_start done (tokens_of_items its) = Inr (rev done @ its)"
proof (induction its arbitrary: "done")
  case Nil
  then show ?case by (simp add: tokens_of_items_def)
next
  case (Cons it its)
  then have rest: "list_all (\<lambda>it. nonempty_array_nodes (item_value it)) its" by simp
  show ?case
  proof (cases it)
    case (Assign_const_node n v)
    with Cons.prems have "nonempty_array_nodes v" by simp
    from parse_value_tokens(1) [OF this, of "done" "Some n" "[]" "tokens_of_items its"]
      Cons.IH [OF rest, of "it # done"] Assign_const_node
    show ?thesis by (simp add: tokens_of_items_def)
  next
    case (Value_node v)
    with Cons.prems have "nonempty_array_nodes v" by simp
    from parse_start_value [OF this, of "done" "tokens_of_items its"]
      Cons.IH [OF rest, of "it # done"] Value_node
    show ?thesis by (simp add: tokens_of_items_def)
  qed
qed

lemma tokens_of_values_snoc:
  "tokens_of_values (xs @ [v]) = concat (map (\<lambda>e. tokens_of_value e @ [COMMA]) xs) @ tokens_of_value v"
  by (induction xs rule: induct_list012) simp_all

lemma tokens_of_items_Cons: "tokens_of_items (it # its) = tokens_of_item it @ tokens_of_items its"
  by (simp add: tokens_of_items_def)

lemma parse_tokens:
  "parse_start done ts = Inr items \<Longrightarrow>
     \<exists>its. items = rev done @ its \<and> ts = tokens_of_items its
           \<and> list_all (\<lambda>it. nonempty_array_nodes (item_value it)) its"
  "parse_value done def_name open_arrays ts = Inr items \<Longrightarrow>
     list_all (list_all nonempty_array_nodes) open_arrays \<Longrightarrow>
     \<exists>top its. items = rev done @ item_of def_name top # its
           \<and> open_tokens open_arrays @ ts = tokens_of_value top @ tokens_of_items its
           \<and> nonempty_array_nodes top
           \<and> list_all (\<lambda>it. nonempty_array_nodes (item_value it)) its"
  "parse_after_value done def_name open_arrays v ts = Inr items \<Longrightarrow>
     list_all (list_all nonempty_array_nodes) open_arrays \<Longrightarrow> nonempty_array_nodes v \<Longrightarrow>
     \<exists>top its. items = rev done @ item_of def_name top # its
           \<and> open_tokens open_arrays @ tokens_of_value v @ ts
               = tokens_of_value top @ tokens_of_items its
           \<and> nonempty_array_nodes top
           \<and> list_all (\<lambda>it. nonempty_array_nodes (item_value it)) its"
proof (induction "done" ts and "done" def_name open_arrays ts and "done" def_name open_arrays v ts
    arbitrary: items and items and items
    rule: parse_start_parse_value_parse_after_value.induct)
  case (2 "done" ts)
  from "2.prems" obtain n r where ts: "ts = NAME n # EQUAL # r"
    and p: "parse_value done (Some n) [] r = Inr items"
    by (auto split: list.splits token.splits)
  have "\<exists>top its. items = rev done @ item_of (Some n) top # its
           \<and> open_tokens [] @ r = tokens_of_value top @ tokens_of_items its
           \<and> nonempty_array_nodes top
           \<and> list_all (\<lambda>it. nonempty_array_nodes (item_value it)) its"
    using "2.IH" ts p by fastforce
  then obtain top its where "items = rev done @ Assign_const_node n top # its"
    "r = tokens_of_value top @ tokens_of_items its" "nonempty_array_nodes top"
    "list_all (\<lambda>it. nonempty_array_nodes (item_value it)) its"
    by auto
  with ts show ?case
    by (intro exI [of _ "Assign_const_node n top # its"]) (simp add: tokens_of_items_def)
qed (auto simp: tokens_of_items_def tokens_of_values_snoc parse_after_value_top
    split: list.splits token.splits option.splits)

lemma parser_inverts_grammar:
  "parse_start [] ts = Inr items
   \<longleftrightarrow> ts = tokens_of_items items
       \<and> list_all (\<lambda>it. nonempty_array_nodes (item_value it)) items"
  using parse_tokens(1) [of "[]" ts items] parse_start_tokens [of items "[]"]
  by auto

section \<open>Number literals\<close>





section \<open>Repeated keys\<close>

text \<open>
  C3, as stated, fails. In \<^verbatim>\<open>def A = 1 def B = 2 def A = 3\<close> the key \<open>A\<close> occurs twice.
  The later value 3 survives, but at the place of the first occurrence, before \<open>B\<close>:
  the Document is not \<open>B, A\<close>.
\<close>

theorem last_write_position_counterexample:
  "result_dict ''def A = 1 def B = 2 def A = 3''
     = Inr (PyDict [(''A'', PyInt 3), (''B'', PyInt 2)])
   \<and> result_dict ''def A = 1 def B = 2 def A = 3''
     \<noteq> Inr (PyDict [(''B'', PyInt 2), (''A'', PyInt 3)])"
  by (simp add: result_dict_def parse_def lex_eval transform_eval)

text \<open>
  C3, amended: when the same key occurs more than once among the entries that
  \<^verbatim>\<open>start\<close> stores (\<open>entries 0 items\<close>, in the order of the items), the later entry
  overwrites the value of the earlier one, and the surviving entry stands at the
  position of the first occurrence of its key. The Document has each key once, the
  keys in the order of their first occurrences, each bound to the value stored last.
\<close>

theorem start_last_write_wins:
  "start items = PyDict (start_loop [] 0 items)
   \<and> map fst (start_loop [] 0 items) = first_occurrences (map fst (entries 0 items))
   \<and> distinct (map fst (start_loop [] 0 items))
   \<and> map_of (start_loop [] 0 items) = map_of (rev (entries 0 items))"
  by (simp add: start_def start_keys start_map_of distinct_first_occurrences)

section \<open>Undefined constants\<close>




section \<open>Arrays have at least one element\<close>

text \<open>
  C7: the input \<^verbatim>\<open>{}\<close> is rejected with a syntax error, and no input that parses has
  an array node without children in its parse tree; so no empty list occurs in
  what the resolution of an input returns either.
\<close>

theorem array_never_empty:
  "parse ''{}'' = Inl UnexpectedInput
   \<and> main ''{}'' = Inl UnexpectedInput
   \<and> (parse text = Inr items \<longrightarrow> list_all (\<lambda>it. nonempty_array_nodes (item_value it)) items)
   \<and> (result_dict text = Inr r \<longrightarrow> nonempty_arrays r)"
proof (intro conjI impI)
  show "parse ''{}'' = Inl UnexpectedInput"
    by (simp add: parse_def lex_eval)
  then show "main ''{}'' = Inl UnexpectedInput"
    by (simp add: main_def result_dict_def)
next
  assume "parse text = Inr items"
  from parse_wf_items [OF this]
  show "list_all (\<lambda>it. nonempty_array_nodes (item_value it)) items"
    by (auto simp: list_all_iff dest: wf_item_nonempty)
next
  assume "result_dict text = Inr r"
  then show "nonempty_arrays r"
    by (rule result_nonempty)
qed

theorem array_never_empty_witness:
  "parse ''{{1},2} def A = {3}''
     = Inr [Value_node (Array_node [Array_node [Number_node ''1''], Number_node ''2'']),
            Assign_const_node ''A'' (Array_node [Number_node ''3''])]
   \<and> list_all (\<lambda>it. nonempty_array_nodes (item_value it))
        [Value_node (Array_node [Array_node [Number_node ''1''], Number_node ''2'']),
         Assign_const_node ''A'' (Array_node [Number_node ''3''])]
   \<and> result_dict ''{{1},2} def A = {3}''
     = Inr (PyDict [(''item_0'', PyList [PyList [PyInt 1], PyInt 2]), (''A'', PyList [PyInt 3])])
   \<and> nonempty_arrays
        (PyDict [(''item_0'', PyList [PyList [PyInt 1], PyInt 2]), (''A'', PyList [PyInt 3])])"
proof -
  have p: "parse ''{{1},2} def A = {3}''
     = Inr [Value_node (Array_node [Array_node [Number_node ''1''], Number_node ''2'']),
            Assign_const_node ''A'' (Array_node [Number_node ''3''])]"
    by (simp add: parse_def lex_eval)
  have r: "result_dict ''{{1},2} def A = {3}''
     = Inr (PyDict [(''item_0'', PyList [PyList [PyInt 1], PyInt 2]), (''A'', PyList [PyInt 3])])"
    by (simp add: result_dict_def p transform_eval is_digit_def)
  from array_never_empty
    [of "''{{1},2} def A = {3}''"
      "[Value_node (Array_node [Array_node [Number_node ''1''], Number_node ''2'']),
        Assign_const_node ''A'' (Array_node [Number_node ''3''])]"
      "PyDict [(''item_0'', PyList [PyList [PyInt 1], PyInt 2]), (''A'', PyList [PyInt 3])]"]
    p r
  show ?thesis by blast
qed

section \<open>The counter of the synthesized keys\<close>

text \<open>
  C6: for every input that parses into other than exactly one top-level item (every
  input that mixes assignments and bare values is such an input), the Document is
  the dict that \<^verbatim>\<open>start\<close> builds from the transformed items \<open>vs\<close>, and its
  entries with a synthesized key are, in this order, \<open>item_0\<close>, \<open>item_1\<close>, ... bound
  to the first, second, ... bare top-level value: the counter advances with the bare
  values alone and an assignment takes no number. The input
  \<^verbatim>\<open>def A = 1 2 def B = 3 4\<close> gives the bare-value keys \<open>item_0\<close> and \<open>item_1\<close>.
\<close>

theorem item_counter_counts_bare_values:
  "result_dict ''def A = 1 2 def B = 3 4''
     = Inr (PyDict [(''A'', PyInt 1), (''item_0'', PyInt 2), (''B'', PyInt 3), (''item_1'', PyInt 4)])
   \<and> (parse text = Inr items \<and> transform_items init items = Inr (vs, s) \<and> length items \<noteq> 1
        \<longrightarrow> result_dict text = Inr (PyDict (start_loop [] 0 vs))
            \<and> [kv \<leftarrow> start_loop [] 0 vs. is_item_key (fst kv)]
                = zip (map item_key [0..<length [it \<leftarrow> items. is_bare it]])
                      [v \<leftarrow> vs. \<not> is_tuple v]
            \<and> length [v \<leftarrow> vs. \<not> is_tuple v] = length [it \<leftarrow> items. is_bare it])"
proof (intro conjI impI)
  show "result_dict ''def A = 1 2 def B = 3 4''
     = Inr (PyDict [(''A'', PyInt 1), (''item_0'', PyInt 2), (''B'', PyInt 3), (''item_1'', PyInt 4)])"
    by (simp add: result_dict_def parse_def lex_eval transform_eval)
next
  assume a: "parse text = Inr items \<and> transform_items init items = Inr (vs, s) \<and> length items \<noteq> 1"
  then have p: "parse text = Inr items" and t: "transform_items init items = Inr (vs, s)"
    and l: "length items \<noteq> 1" by simp_all
  from transform_items_results [OF values_only_init t]
  have "list_all2 item_result items vs" by simp
  from items_results_tuples [OF this parse_wf_items [OF p]]
  have ok: "list_all tuple_name_ok vs"
    and len: "length [v \<leftarrow> vs. \<not> is_tuple v] = length [it \<leftarrow> items. is_bare it]"
    by simp_all
  show "result_dict text = Inr (PyDict (start_loop [] 0 vs))"
    using p t l by (simp add: result_dict_def transform_alt start_def)
  show "length [v \<leftarrow> vs. \<not> is_tuple v] = length [it \<leftarrow> items. is_bare it]"
    by (rule len)
  from start_loop_item_keys [OF ok, of "[]" 0] len
  show "[kv \<leftarrow> start_loop [] 0 vs. is_item_key (fst kv)]
          = zip (map item_key [0..<length [it \<leftarrow> items. is_bare it]]) [v \<leftarrow> vs. \<not> is_tuple v]"
    by simp
qed

theorem item_counter_counts_bare_values_witness:
  "parse ''def A = 1 2 def B = 3 4''
     = Inr [Assign_const_node ''A'' (Number_node ''1''), Value_node (Number_node ''2''),
            Assign_const_node ''B'' (Number_node ''3''), Value_node (Number_node ''4'')]
   \<and> [kv \<leftarrow> start_loop [] 0 [PyTuple ''A'' (PyInt 1), PyInt 2, PyTuple ''B'' (PyInt 3), PyInt 4].
         is_item_key (fst kv)]
     = zip (map item_key [0..<2]) [PyInt 2, PyInt 4]"
proof -
  have p: "parse ''def A = 1 2 def B = 3 4''
     = Inr [Assign_const_node ''A'' (Number_node ''1''), Value_node (Number_node ''2''),
            Assign_const_node ''B'' (Number_node ''3''), Value_node (Number_node ''4'')]"
    by (simp add: parse_def lex_eval)
  have "transform_items init
          [Assign_const_node ''A'' (Number_node ''1''), Value_node (Number_node ''2''),
           Assign_const_node ''B'' (Number_node ''3''), Value_node (Number_node ''4'')]
        = Inr ([PyTuple ''A'' (PyInt 1), PyInt 2, PyTuple ''B'' (PyInt 3), PyInt 4],
               snd (assign_const (snd (assign_const init ''A'' (PyInt 1))) ''B'' (PyInt 3)))"
    by (simp add: assign_const_def number_def py_int_def nat_of_digits_def digit_val_def
        is_digit_def)
  with p item_counter_counts_bare_values
    [of "''def A = 1 2 def B = 3 4''"
      "[Assign_const_node ''A'' (Number_node ''1''), Value_node (Number_node ''2''),
        Assign_const_node ''B'' (Number_node ''3''), Value_node (Number_node ''4'')]"
      "[PyTuple ''A'' (PyInt 1), PyInt 2, PyTuple ''B'' (PyInt 3), PyInt 4]"
      "snd (assign_const (snd (assign_const init ''A'' (PyInt 1))) ''B'' (PyInt 3))"]
  show ?thesis
    by (simp add: numeral_2_eq_2)
qed

section \<open>Constants are resolved where they are used\<close>

text \<open>
  C1: the input \<^verbatim>\<open>def A = 1 def B = ?[A] def A = 2 def C = ?[A]\<close> resolves \<open>B\<close> to 1
  and \<open>C\<close> to 2. In general a const-reference \<^verbatim>\<open>?[a]\<close> resolves to the value that
  the constant table holds for \<open>a\<close> at that point of the traversal; and when the
  items before \<^verbatim>\<open>def b = ?[a]\<close> leave the table with \<open>a\<close> bound to \<open>v\<close>, the
  Document binds \<open>b\<close> to \<open>v\<close> whatever the later items are, a redefinition of \<open>a\<close>
  among them included, as long as they do not assign \<open>b\<close> itself.
\<close>

theorem const_ref_resolved_at_use:
  "result_dict ''def A = 1 def B = ?[A] def A = 2 def C = ?[A]''
     = Inr (PyDict [(''A'', PyInt 2), (''B'', PyInt 1), (''C'', PyInt 2)])
   \<and> (constants self a = Some v \<longrightarrow> transform_value self (Resolve_const_node a) = Inr v)
   \<and> (transform_items init pre = Inr (vs1, s1) \<and> constants s1 a = Some v
        \<and> is_name b \<and> b \<notin> set (assigned post) \<and> (pre \<noteq> [] \<or> post \<noteq> [])
        \<and> transform (pre @ Assign_const_node b (Resolve_const_node a) # post) = Inr r
        \<longrightarrow> (\<exists>d. r = PyDict d \<and> map_of d b = Some v))"
proof (intro conjI impI)
  show "result_dict ''def A = 1 def B = ?[A] def A = 2 def C = ?[A]''
     = Inr (PyDict [(''A'', PyInt 2), (''B'', PyInt 1), (''C'', PyInt 2)])"
    by (simp add: result_dict_def parse_def lex_eval transform_eval)
next
  assume "constants self a = Some v"
  then show "transform_value self (Resolve_const_node a) = Inr v"
    by (simp add: resolve_const_def)
next
  assume "transform_items init pre = Inr (vs1, s1) \<and> constants s1 a = Some v
        \<and> is_name b \<and> b \<notin> set (assigned post) \<and> (pre \<noteq> [] \<or> post \<noteq> [])
        \<and> transform (pre @ Assign_const_node b (Resolve_const_node a) # post) = Inr r"
  then show "\<exists>d. r = PyDict d \<and> map_of d b = Some v"
    using consumer_keeps_value [of pre vs1 s1 a v b post r] by blast
qed

theorem const_ref_resolved_at_use_witness:
  "transform_items init [Assign_const_node ''A'' (Number_node ''1'')]
     = Inr ([PyTuple ''A'' (PyInt 1)], snd (assign_const init ''A'' (PyInt 1)))
   \<and> constants (snd (assign_const init ''A'' (PyInt 1))) ''A'' = Some (PyInt 1)
   \<and> is_name ''B''
   \<and> ''B'' \<notin> set (assigned [Assign_const_node ''A'' (Number_node ''2''),
                            Assign_const_node ''C'' (Resolve_const_node ''A'')])
   \<and> transform ([Assign_const_node ''A'' (Number_node ''1'')]
        @ Assign_const_node ''B'' (Resolve_const_node ''A'')
        # [Assign_const_node ''A'' (Number_node ''2''),
           Assign_const_node ''C'' (Resolve_const_node ''A'')])
     = Inr (PyDict [(''A'', PyInt 2), (''B'', PyInt 1), (''C'', PyInt 2)])
   \<and> (\<exists>d. PyDict [(''A'', PyInt 2), (''B'', PyInt 1), (''C'', PyInt 2)] = PyDict d
          \<and> map_of d ''B'' = Some (PyInt 1))"
proof -
  have 1: "transform_items init [Assign_const_node ''A'' (Number_node ''1'')]
     = Inr ([PyTuple ''A'' (PyInt 1)], snd (assign_const init ''A'' (PyInt 1)))"
    by (simp add: assign_const_def number_def py_int_def nat_of_digits_def digit_val_def
        is_digit_def)
  have 2: "constants (snd (assign_const init ''A'' (PyInt 1))) ''A'' = Some (PyInt 1)"
    by (simp add: assign_const_def)
  have 3: "is_name ''B''"
    by (simp add: is_name_def is_name_start_def is_upper_def)
  have 4: "''B'' \<notin> set (assigned [Assign_const_node ''A'' (Number_node ''2''),
                            Assign_const_node ''C'' (Resolve_const_node ''A'')])"
    by simp
  have 5: "transform ([Assign_const_node ''A'' (Number_node ''1'')]
        @ Assign_const_node ''B'' (Resolve_const_node ''A'')
        # [Assign_const_node ''A'' (Number_node ''2''),
           Assign_const_node ''C'' (Resolve_const_node ''A'')])
     = Inr (PyDict [(''A'', PyInt 2), (''B'', PyInt 1), (''C'', PyInt 2)])"
    by (simp add: transform_eval is_digit_def)
  from const_ref_resolved_at_use
    [of "snd (assign_const init ''A'' (PyInt 1))" "''A''" "PyInt 1"
      "[Assign_const_node ''A'' (Number_node ''1'')]" "[PyTuple ''A'' (PyInt 1)]"
      "snd (assign_const init ''A'' (PyInt 1))" "''B''"
      "[Assign_const_node ''A'' (Number_node ''2''),
        Assign_const_node ''C'' (Resolve_const_node ''A'')]"
      "PyDict [(''A'', PyInt 2), (''B'', PyInt 1), (''C'', PyInt 2)]"]
    1 2 3 4 5
  show ?thesis by blast
qed

section \<open>Empty input\<close>

text \<open>
  C10: the empty input, and every input that holds nothing but white space and
  comments, is accepted; its Document is the empty dict and the program prints
  exactly \<^verbatim>\<open><config/>\<close>.
\<close>

theorem empty_input_gives_empty_root:
  "result_dict [] = Inr (PyDict []) \<and> main [] = Inr ''<config/>''
   \<and> (ignored_tail text \<longrightarrow> result_dict text = Inr (PyDict []) \<and> main text = Inr ''<config/>'')"
proof (intro conjI impI)
  have e: "ignored_tail []"
    by (intro ignored_tail.intros ignored.intros)
  from result_ignored [OF e] show "result_dict [] = Inr (PyDict [])" .
  then show "main [] = Inr ''<config/>''"
    by (simp add: main_def generate_empty)
next
  assume "ignored_tail text"
  from result_ignored [OF this] show "result_dict text = Inr (PyDict [])" .
  then show "main text = Inr ''<config/>''"
    by (simp add: main_def generate_empty)
qed

theorem empty_input_gives_empty_root_witness:
  "ignored_tail ''  -- a comment\<newline>|# block #|\<newline>-- end''
   \<and> result_dict ''  -- a comment\<newline>|# block #|\<newline>-- end'' = Inr (PyDict [])
   \<and> main ''  -- a comment\<newline>|# block #|\<newline>-- end'' = Inr ''<config/>''"
proof -
  have 1: "ignored ''\<newline>''"
    using ignored_ws [of "CHR 0x0A" "[]"] ignored_empty by (simp add: is_ws_def)
  have 2: "ignored ''|# block #|\<newline>''"
    using ignored_multi [of "'' block ''" "''\<newline>''"] 1 by simp
  have 3: "ignored ''-- a comment\<newline>|# block #|\<newline>''"
    using ignored_single [of "'' a comment''" "''|# block #|\<newline>''"] 2 by simp
  have 4: "ignored ''  -- a comment\<newline>|# block #|\<newline>''"
    using ignored_ws [of "CHR '' ''" "'' -- a comment\<newline>|# block #|\<newline>''"]
      ignored_ws [of "CHR '' ''" "''-- a comment\<newline>|# block #|\<newline>''"] 3
    by (simp add: is_ws_def)
  have 5: "ignored_tail ''  -- a comment\<newline>|# block #|\<newline>-- end''"
    using tail_single [OF 4, of "'' end''"] by simp
  from empty_input_gives_empty_root [of "''  -- a comment\<newline>|# block #|\<newline>-- end''"] 5
  show ?thesis by blast
qed

section \<open>Comments\<close>

text \<open>
  C8: let a file consist of one scalar literal \<open>v\<close> (a number or a string) with
  white space and comments before and after it, and let \<open>w1\<close> and \<open>w2\<close> be what is
  left of these surroundings when every comment is removed (\<open>uncommented\<close>: a
  single-line comment goes from \<^verbatim>\<open>--\<close> up to the end of its line, a block comment from
  \<^verbatim>\<open>|#\<close> to the first \<^verbatim>\<open>#|\<close>). Then the file and the file without its comments
  resolve to the same result, which is that of \<open>v\<close> alone, and print the same.
\<close>

theorem comments_are_transparent:
  "scalar_literal v \<and> uncommented c1 w1 \<and> uncommented_tail c2 w2
   \<longrightarrow> result_dict (c1 @ v @ c2) = result_dict (w1 @ v @ w2)
       \<and> result_dict (c1 @ v @ c2) = result_dict v
       \<and> (\<exists>d. result_dict (c1 @ v @ c2) = Inr d)
       \<and> main (c1 @ v @ c2) = main (w1 @ v @ w2)"
proof
  assume a: "scalar_literal v \<and> uncommented c1 w1 \<and> uncommented_tail c2 w2"
  then have v: "scalar_literal v" by simp
  from a uncommented_ignored [of c1 w1] have c1: "ignored c1" and w1: "ignored w1"
    by simp_all
  from a uncommented_tail_ignored [of c2 w2] have c2: "ignored_tail c2" and w2: "ignored_tail w2"
    by simp_all
  have e: "ignored []" "ignored_tail []"
    by (intro ignored_tail.intros ignored.intros)+
  note c = result_scalar [OF v c1 c2] and w = result_scalar [OF v w1 w2]
    and n = result_scalar [OF v e]
  from c w n transform_scalar [OF v]
  show "result_dict (c1 @ v @ c2) = result_dict (w1 @ v @ w2)
       \<and> result_dict (c1 @ v @ c2) = result_dict v
       \<and> (\<exists>d. result_dict (c1 @ v @ c2) = Inr d)
       \<and> main (c1 @ v @ c2) = main (w1 @ v @ w2)"
    by (simp add: main_def)
qed

theorem comments_are_transparent_witness:
  "scalar_literal ''42''
   \<and> uncommented ''-- comment\<newline>|# block #| '' ''\<newline> ''
   \<and> uncommented_tail '' |# b #|-- end'' '' ''
   \<and> result_dict (''-- comment\<newline>|# block #| '' @ ''42'' @ '' |# b #|-- end'')
       = result_dict (''\<newline> '' @ ''42'' @ '' '')
   \<and> result_dict (''-- comment\<newline>|# block #| '' @ ''42'' @ '' |# b #|-- end'')
       = result_dict ''42''
   \<and> main (''-- comment\<newline>|# block #| '' @ ''42'' @ '' |# b #|-- end'')
       = main (''\<newline> '' @ ''42'' @ '' '')"
proof -
  have s: "scalar_literal ''42''"
    by (simp add: scalar_literal_def number_literal_def is_digit_def)
  have 1: "uncommented '' '' '' ''"
    using unc_ws [of "CHR '' ''" "[]" "[]"] unc_empty by (simp add: is_ws_def)
  have 2: "uncommented ''|# block #| '' '' ''"
    using unc_multi [of "'' block ''" "'' ''" "'' ''"] 1 by simp
  have 3: "uncommented ''-- comment\<newline>|# block #| '' ''\<newline> ''"
    using unc_single [of "'' comment''" "''|# block #| ''" "'' ''"] 2 by simp
  have 4: "uncommented ''|# b #|'' []"
    using unc_multi [of "'' b ''" "[]" "[]"] unc_empty by simp
  have 5: "uncommented '' |# b #|'' '' ''"
    using unc_ws [of "CHR '' ''" "''|# b #|''" "[]"] 4 by (simp add: is_ws_def)
  have 6: "uncommented_tail '' |# b #|-- end'' '' ''"
    using unc_last [OF 5, of "'' end''"] by simp
  from comments_are_transparent
    [of "''42''" "''-- comment\<newline>|# block #| ''" "''\<newline> ''" "'' |# b #|-- end''" "'' ''"]
    s 3 6
  show ?thesis by blast
qed

section \<open>The shape of the output\<close>

text \<open>
  C5: the input \<^verbatim>\<open>1 "x" {1,2,3}\<close> gives the Document with the keys \<open>item_0\<close>,
  \<open>item_1\<close>, \<open>item_2\<close> in this order, bound to 1, \<open>x\<close> and the list 1, 2, 3. The
  element tree has three children under the root; the third holds one \<open>array\<close>
  element with three \<open>item\<close> children whose texts are 1, 2 and 3; and this is the
  XML text that is printed.
\<close>

theorem three_items_shape:
  "result_dict ''1 \"x\" {1,2,3}''
     = Inr (PyDict [(''item_0'', PyInt 1), (''item_1'', PyStr ''x''),
                    (''item_2'', PyList [PyInt 1, PyInt 2, PyInt 3])])
   \<and> to_xml_recurse (Element ''config'' None [])
        (PyDict [(''item_0'', PyInt 1), (''item_1'', PyStr ''x''),
                 (''item_2'', PyList [PyInt 1, PyInt 2, PyInt 3])])
     = Element ''config'' None
         [Element ''item_0'' (Some ''1'') [],
          Element ''item_1'' (Some ''x'') [],
          Element ''item_2'' None
            [Element ''array'' None
               [Element ''item'' (Some ''1'') [],
                Element ''item'' (Some ''2'') [],
                Element ''item'' (Some ''3'') []]]]
   \<and> main ''1 \"x\" {1,2,3}''
     = Inr ''<config>\<newline>  <item_0>1</item_0>\<newline>  <item_1>x</item_1>\<newline>  <item_2>\<newline>    <array>\<newline>      <item>1</item>\<newline>      <item>2</item>\<newline>      <item>3</item>\<newline>    </array>\<newline>  </item_2>\<newline></config>''"
proof -
  have r: "result_dict ''1 \"x\" {1,2,3}''
     = Inr (PyDict [(''item_0'', PyInt 1), (''item_1'', PyStr ''x''),
                    (''item_2'', PyList [PyInt 1, PyInt 2, PyInt 3])])"
    by (simp add: result_dict_def parse_def lex_eval transform_eval)
  have t: "to_xml_recurse (Element ''config'' None [])
        (PyDict [(''item_0'', PyInt 1), (''item_1'', PyStr ''x''),
                 (''item_2'', PyList [PyInt 1, PyInt 2, PyInt 3])])
     = Element ''config'' None
         [Element ''item_0'' (Some ''1'') [],
          Element ''item_1'' (Some ''x'') [],
          Element ''item_2'' None
            [Element ''array'' None
               [Element ''item'' (Some ''1'') [],
                Element ''item'' (Some ''2'') [],
                Element ''item'' (Some ''3'') []]]]"
    by (simp add: py_str_def str_int_def str_nat.simps digit_char_def set_text_def
        append_child_def)
  have m: "main ''1 \"x\" {1,2,3}''
     = Inr ''<config>\<newline>  <item_0>1</item_0>\<newline>  <item_1>x</item_1>\<newline>  <item_2>\<newline>    <array>\<newline>      <item>1</item>\<newline>      <item>2</item>\<newline>      <item>3</item>\<newline>    </array>\<newline>  </item_2>\<newline></config>''"
    by (simp add: main_def r xml_eval str_nat.simps digit_char_def is_upper_def is_lower_def
        is_digit_def)
  from r t m show ?thesis by blast
qed

section \<open>The emitter and empty arrays\<close>




end
